theory Spec2Isabelle
  imports Complex_Main
begin

section \<open>The MPG Ranch NFC detector (vesper/mpg_ranch/nfc_detector_0_0/detector.py)\<close>

text \<open>
  The detector buffers the samples handed to \<open>detect\<close>, cuts the buffer into chunks of
  \<open>_input_chunk_size\<close> samples, slices each chunk into hopped analysis records, scores the
  records, finds score peaks for every threshold and reports a clip to its listener for
  every peak whose clip lies inside the samples received so far.

  Python integers are unbounded and are modelled as \<open>int\<close>. Python numbers that may be
  floats (durations in seconds, sample rates, scores, thresholds) are values of a type
  variable \<open>'f\<close>; no property of floating-point arithmetic is used. Samples are values of
  a type variable \<open>'a\<close>; a one-dimensional NumPy array is a list.
\<close>

subsection \<open>Exceptions\<close>

text \<open>
  \<open>ValueError\<close> is raised by \<open>_get_num_analysis_records\<close>. \<open>TypeError\<close> is what
  Python raises for \<open>len(None)\<close>. \<open>InsufficientDataError\<close> belongs to the sample buffer.
\<close>

datatype error = ValueError string | TypeError string | InsufficientDataError

subsection \<open>The sample buffer\<close>

text \<open>
  Modelled from the spec: the class \<open>SampleBuffer\<close> of \<open>vesper.util.sample_buffer\<close> is
  not among the source files. The specification gives its contract: \<open>write\<close> appends to
  the tail in sample order, \<open>read(n)\<close> returns and removes the first \<open>n\<close> samples and
  fails with \<open>InsufficientDataError\<close> if fewer than \<open>n\<close> are available, \<open>read()\<close> drains
  and returns everything buffered, \<open>len\<close> is the number of buffered samples.
\<close>

type_synonym 'a sample_buffer = "'a list"

definition buffer_write :: "'a sample_buffer \<Rightarrow> 'a list \<Rightarrow> 'a sample_buffer" where
  "buffer_write buf samples = buf @ samples"

definition buffer_read :: "'a sample_buffer \<Rightarrow> int \<Rightarrow> error + ('a list \<times> 'a sample_buffer)" where
  "buffer_read buf n =
     (if int (length buf) < n then Inl InsufficientDataError
      else Inr (take (nat n) buf, drop (nat n) buf))"

definition buffer_read_all :: "'a sample_buffer \<Rightarrow> 'a list \<times> 'a sample_buffer" where
  "buffer_read_all buf = (buf, [])"

subsection \<open>Analysis records\<close>

text \<open>\<open>_get_num_analysis_records(num_samples, record_size, hop_size)\<close>; \<open>//\<close> on Python
  integers is floor division, as \<open>div\<close> on \<open>int\<close> is.\<close>

definition get_num_analysis_records :: "int \<Rightarrow> int \<Rightarrow> int \<Rightarrow> error + int" where
  "get_num_analysis_records num_samples record_size hop_size =
     (if record_size \<le> 0 then Inl (ValueError ''Record size must be positive.'')
      else if hop_size \<le> 0 then Inl (ValueError ''Hop size must be positive.'')
      else if hop_size > record_size then
        Inl (ValueError ''Hop size must not exceed record size.'')
      else if num_samples < record_size then Inr 0
      else
        (let overlap = record_size - hop_size
         in Inr ((num_samples - overlap) div hop_size)))"

text \<open>
  \<open>_get_analysis_records(samples, record_size, hop_size)\<close> returns a strided view of shape
  \<open>(num_vectors, record_size)\<close> whose row \<open>k\<close> starts \<open>k * hop_size\<close> samples into the
  input: row \<open>k\<close> is \<open>samples[k * hop_size : k * hop_size + record_size]\<close>.
\<close>

definition get_analysis_records :: "'a list \<Rightarrow> int \<Rightarrow> int \<Rightarrow> error + 'a list list" where
  "get_analysis_records samples record_size hop_size =
     (let num_samples = int (length samples)
      in case get_num_analysis_records num_samples record_size hop_size of
           Inl e \<Rightarrow> Inl e
         | Inr num_vectors \<Rightarrow>
             Inr (map (\<lambda>k. take (nat record_size) (drop (k * nat hop_size) samples))
                    [0 ..< nat num_vectors]))"

subsection \<open>Collaborators\<close>

text \<open>
  The functions below are called by the detector and are not among the source files:
  \<open>signal_utils.seconds_to_frames\<close>, \<open>signal_utils.get_duration\<close>,
  \<open>signal_utils.find_peaks\<close>, \<open>resampy.resample\<close> (with the filter argument fixed),
  \<open>classifier_utils.score_dataset_examples\<close> applied to the dataset built from
  \<open>self._waveforms\<close>, and the arithmetic of Python numbers (\<open>/\<close>, \<open>*\<close>, and the reading of
  an integer literal as a number). They are parameters of the model.
\<close>

record ('a, 'f) env =
  seconds_to_frames :: "'f \<Rightarrow> 'f \<Rightarrow> int"
  get_duration :: "int \<Rightarrow> 'f \<Rightarrow> 'f"
  find_peaks :: "'f list \<Rightarrow> 'f \<Rightarrow> 'f option \<Rightarrow> int list"
  resample :: "'a list \<Rightarrow> 'f \<Rightarrow> 'f \<Rightarrow> 'a list"
  score_dataset_examples :: "'a list list \<Rightarrow> 'f list"
  num_div :: "'f \<Rightarrow> 'f \<Rightarrow> 'f"
  num_mul :: "'f \<Rightarrow> 'f \<Rightarrow> 'f"
  num_of_int :: "int \<Rightarrow> 'f"

subsection \<open>Settings\<close>

text \<open>The \<open>Settings\<close> objects \<open>_TSEEP_SETTINGS\<close> and \<open>_THRUSH_SETTINGS\<close> have these
  attributes; the classifier settings are loaded from a YAML file.\<close>

record 'f settings =
  clip_type :: string
  input_chunk_size :: 'f
  hop_size :: 'f
  threshold :: 'f
  min_separation :: "'f option"
  initial_clip_padding :: 'f
  clip_duration :: 'f

record 'f classifier_settings =
  waveform_sample_rate :: 'f
  waveform_duration :: 'f

subsection \<open>The listener and the log\<close>

text \<open>
  The listener is an object with the methods \<open>process_clip(start_index, length,
  threshold)\<close> and \<open>complete_processing()\<close>. The model records the calls it receives:
  the clips in the order of the calls, and the number of completion calls.
\<close>

type_synonym 'f clip = "int \<times> int \<times> 'f"

record 'f listener =
  clips :: "'f clip list"
  completions :: nat

definition process_clip :: "'f listener \<Rightarrow> int \<Rightarrow> int \<Rightarrow> 'f \<Rightarrow> 'f listener" where
  "process_clip l start_index len thr = l\<lparr>clips := clips l @ [(start_index, len, thr)]\<rparr>"

definition complete_processing :: "'f listener \<Rightarrow> 'f listener" where
  "complete_processing l = l\<lparr>completions := Suc (completions l)\<rparr>"

definition new_listener :: "'f listener" where
  "new_listener = \<lparr>clips = [], completions = 0\<rparr>"

subsection \<open>The detector object\<close>

text \<open>
  The attributes of a \<open>_Detector\<close> (without the leading underscore). \<open>input_buffer\<close> is
  \<open>None\<close> until the first call of \<open>detect\<close>. \<open>warnings\<close> collects the messages passed
  to \<open>logging.warning\<close>. \<open>self._settings.min_separation\<close> is read through
  \<open>min_separation\<close>, the attribute \<open>__init__\<close> copies it to; the settings object is
  never assigned to. The classifier settings and the estimator are only used by the
  scorer, which is a parameter.
\<close>

record ('a, 'f) detector =
  input_sample_rate :: 'f
  listener :: "'f listener"
  input_buffer :: "'a sample_buffer option"
  input_chunk_size :: int
  thresholds :: "'f list"
  min_separation :: "'f option"
  clip_start_offset :: int
  clip_length :: int
  input_chunk_start_index :: int
  classifier_sample_rate :: 'f
  classifier_waveform_length :: int
  hop_size :: int
  warnings :: "string list"

text \<open>\<open>_get_thresholds\<close>: \<open>sorted(set([threshold]) | set(extra_thresholds))\<close>.\<close>

definition get_thresholds :: "'f::linorder settings \<Rightarrow> 'f list option \<Rightarrow> 'f list" where
  "get_thresholds s extra_thresholds =
     (case extra_thresholds of
        None \<Rightarrow> sorted_list_of_set (set [settings.threshold s])
      | Some extra \<Rightarrow> sorted_list_of_set (set [settings.threshold s] \<union> set extra))"

text \<open>
  \<open>__init__\<close>. The classifier settings, which the constructor loads from a file, are an
  argument. The constructor contains no check of its arguments and no \<open>raise\<close>.
\<close>

definition init ::
  "('a, 'f::linorder) env \<Rightarrow> 'f settings \<Rightarrow> 'f classifier_settings \<Rightarrow> 'f \<Rightarrow> 'f list option
     \<Rightarrow> ('a, 'f) detector" where
  "init e s cs fs extra_thresholds =
     (let s2f = seconds_to_frames e;
          cfs = waveform_sample_rate cs;
          fraction = num_div e (settings.hop_size s) (num_of_int e 100)
      in \<lparr> input_sample_rate = fs,
           listener = new_listener,
           input_buffer = None,
           input_chunk_size = s2f (settings.input_chunk_size s) fs,
           thresholds = get_thresholds s extra_thresholds,
           min_separation = settings.min_separation s,
           clip_start_offset = - s2f (initial_clip_padding s) fs,
           clip_length = s2f (clip_duration s) fs,
           input_chunk_start_index = 0,
           classifier_sample_rate = cfs,
           classifier_waveform_length = s2f (waveform_duration cs) cfs,
           hop_size = s2f (num_mul e fraction (waveform_duration cs)) cfs,
           warnings = [] \<rparr>)"

subsection \<open>NumPy integers\<close>

text \<open>
  The peak indices returned by \<open>find_peaks\<close> are a NumPy array of 64-bit signed
  integers. \<open>peak_indices *= self._hop_size\<close> multiplies it in place, and the products
  wrap around silently: the result is the product modulo \<open>2 ^ 64\<close>, read as a signed
  number. \<open>is_int64\<close> is the range of the values of such an array. A hop size outside
  that range cannot be converted by NumPy; that case is not modelled.
\<close>

definition int64 :: "int \<Rightarrow> int" where
  "int64 x = (x + 2 ^ 63) mod 2 ^ 64 - 2 ^ 63"

definition is_int64 :: "int \<Rightarrow> bool" where
  "is_int64 x \<longleftrightarrow> - (2 ^ 63) \<le> x \<and> x < 2 ^ 63"

subsection \<open>Peaks and clips\<close>

text \<open>\<open>_find_peaks\<close>: the minimum separation in hops is the minimum separation in seconds
  divided by the duration of a hop, or \<open>None\<close>.\<close>

definition detector_find_peaks ::
  "('a, 'f) env \<Rightarrow> ('a, 'f) detector \<Rightarrow> 'f list \<Rightarrow> 'f \<Rightarrow> int list" where
  "detector_find_peaks e d scores thr =
     (let min_sep =
        (case min_separation d of
           None \<Rightarrow> None
         | Some ms \<Rightarrow>
             (let hop = get_duration e (hop_size d) (classifier_sample_rate d)
              in Some (num_div e ms hop)))
      in find_peaks e scores thr min_sep)"

text \<open>
  The body of the loop of \<open>_notify_listener_of_clips\<close> for one element \<open>i\<close> of
  \<open>peak_indices * hop_size\<close>, and the loop. The two rejections call \<open>logging.warning\<close>
  and go on with the next peak. The products of the peak indices and the hop size wrap
  around as 64-bit integers; the arithmetic inside the loop is on Python integers.
\<close>

definition notify_step ::
  "('a, 'f) env \<Rightarrow> int \<Rightarrow> int \<Rightarrow> 'f \<Rightarrow> ('a, 'f) detector \<Rightarrow> int \<Rightarrow> ('a, 'f) detector" where
  "notify_step e start_offset input_length thr d i0 =
     (let t = get_duration e i0 (classifier_sample_rate d);
          i = seconds_to_frames e t (input_sample_rate d);
          clip_start_index = i + start_offset;
          clip_end_index = clip_start_index + clip_length d;
          chunk_end_index = input_chunk_start_index d + input_length
      in if clip_start_index < 0 then
           d\<lparr>warnings := warnings d @
               [''Rejected clip that started before beginning of recording.'']\<rparr>
         else if clip_end_index > chunk_end_index then
           d\<lparr>warnings := warnings d @
               [''Rejected clip that ended after end of recording chunk.'']\<rparr>
         else
           d\<lparr>listener := process_clip (listener d) clip_start_index (clip_length d) thr\<rparr>)"

fun notify_loop ::
  "('a, 'f) env \<Rightarrow> int \<Rightarrow> int \<Rightarrow> 'f \<Rightarrow> ('a, 'f) detector \<Rightarrow> int list \<Rightarrow> ('a, 'f) detector" where
  "notify_loop e start_offset input_length thr d [] = d"
| "notify_loop e start_offset input_length thr d (i # is) =
     notify_loop e start_offset input_length thr
       (notify_step e start_offset input_length thr d i) is"

definition notify_listener_of_clips ::
  "('a, 'f) env \<Rightarrow> ('a, 'f) detector \<Rightarrow> int list \<Rightarrow> int \<Rightarrow> 'f \<Rightarrow> ('a, 'f) detector" where
  "notify_listener_of_clips e d peak_indices input_length thr =
     (let start_offset = input_chunk_start_index d + clip_start_offset d;
          peak_indices = map (\<lambda>p. int64 (p * hop_size d)) peak_indices
      in notify_loop e start_offset input_length thr d peak_indices)"

subsection \<open>Chunks\<close>

text \<open>
  A call that raises returns the exception together with the listener as it has been
  called until the \<open>raise\<close>; a call that returns normally returns the detector.
  \<open>_SCORE_OUTPUT_ENABLED\<close> is \<open>False\<close>, so the score file writer is never used.
\<close>

type_synonym ('a, 'f) outcome = "(error \<times> 'f listener) + ('a, 'f) detector"

fun threshold_loop ::
  "('a, 'f) env \<Rightarrow> 'f list \<Rightarrow> int \<Rightarrow> ('a, 'f) detector \<Rightarrow> 'f list \<Rightarrow> ('a, 'f) detector" where
  "threshold_loop e scores input_length d [] = d"
| "threshold_loop e scores input_length d (thr # thrs) =
     (let peak_indices = detector_find_peaks e d scores thr;
          d' = notify_listener_of_clips e d peak_indices input_length thr
      in threshold_loop e scores input_length d' thrs)"

definition process_input_chunk ::
  "('a, 'f) env \<Rightarrow> ('a, 'f) detector \<Rightarrow> 'a list \<Rightarrow> ('a, 'f) outcome" where
  "process_input_chunk e d samples =
     (let input_length = int (length samples);
          samples =
            (if classifier_sample_rate d \<noteq> input_sample_rate d then
               resample e samples (input_sample_rate d) (classifier_sample_rate d)
             else samples)
      in case get_analysis_records samples (classifier_waveform_length d) (hop_size d) of
           Inl err \<Rightarrow> Inl (err, listener d)
         | Inr waveforms \<Rightarrow>
             (let scores = score_dataset_examples e waveforms;
                  d' = threshold_loop e scores input_length d (thresholds d)
              in Inr (d'\<lparr>input_chunk_start_index :=
                          input_chunk_start_index d' + input_length\<rparr>)))"

text \<open>
  The \<open>while\<close> loop of \<open>_process_input_chunks\<close>. It need not terminate (a chunk size
  that is not positive never empties the buffer), so it is a partial function: \<open>None\<close>
  is the loop that runs forever.
\<close>

partial_function (option) process_input_chunks_while ::
  "('a, 'f) env \<Rightarrow> ('a, 'f) detector \<Rightarrow> ('a, 'f) outcome option" where
  "process_input_chunks_while e d =
     (case input_buffer d of
        None \<Rightarrow> Some (Inl (TypeError ''object of type NoneType has no len()'', listener d))
      | Some buf \<Rightarrow>
          if int (length buf) \<ge> input_chunk_size d then
            (case buffer_read buf (input_chunk_size d) of
               Inl err \<Rightarrow> Some (Inl (err, listener d))
             | Inr (chunk, buf') \<Rightarrow>
                 (case process_input_chunk e (d\<lparr>input_buffer := Some buf'\<rparr>) chunk of
                    Inl x \<Rightarrow> Some (Inl x)
                  | Inr d' \<Rightarrow> process_input_chunks_while e d'))
          else Some (Inr d))"

declare process_input_chunks_while.simps [code]

definition process_input_chunks ::
  "('a, 'f) env \<Rightarrow> ('a, 'f) detector \<Rightarrow> bool \<Rightarrow> ('a, 'f) outcome option" where
  "process_input_chunks e d process_all_samples =
     (case process_input_chunks_while e d of
        None \<Rightarrow> None
      | Some (Inl x) \<Rightarrow> Some (Inl x)
      | Some (Inr d') \<Rightarrow>
          if process_all_samples then
            (case input_buffer d' of
               None \<Rightarrow>
                 Some (Inl (TypeError ''object of type NoneType has no len()'', listener d'))
             | Some buf \<Rightarrow>
                 if length buf \<noteq> 0 then
                   (let (chunk, buf') = buffer_read_all buf
                    in Some (process_input_chunk e (d'\<lparr>input_buffer := Some buf'\<rparr>) chunk))
                 else Some (Inr d'))
          else Some (Inr d'))"

subsection \<open>The two operations\<close>

definition detect ::
  "('a, 'f) env \<Rightarrow> ('a, 'f) detector \<Rightarrow> 'a list \<Rightarrow> ('a, 'f) outcome option" where
  "detect e d samples =
     (let buf = (case input_buffer d of None \<Rightarrow> [] | Some b \<Rightarrow> b);
          d' = d\<lparr>input_buffer := Some (buffer_write buf samples)\<rparr>
      in process_input_chunks e d' False)"

definition complete_detection ::
  "('a, 'f) env \<Rightarrow> ('a, 'f) detector \<Rightarrow> ('a, 'f) outcome option" where
  "complete_detection e d =
     (case process_input_chunks e d True of
        None \<Rightarrow> None
      | Some (Inl x) \<Rightarrow> Some (Inl x)
      | Some (Inr d') \<Rightarrow> Some (Inr (d'\<lparr>listener := complete_processing (listener d')\<rparr>)))"

text \<open>
  A detection session: \<open>detect\<close> is called with each array in turn, then
  \<open>complete_detection\<close> is called. The session ends at the first exception.
\<close>

fun detect_all ::
  "('a, 'f) env \<Rightarrow> ('a, 'f) detector \<Rightarrow> 'a list list \<Rightarrow> ('a, 'f) outcome option" where
  "detect_all e d [] = Some (Inr d)"
| "detect_all e d (samples # rest) =
     (case detect e d samples of
        None \<Rightarrow> None
      | Some (Inl x) \<Rightarrow> Some (Inl x)
      | Some (Inr d') \<Rightarrow> detect_all e d' rest)"

definition session ::
  "('a, 'f) env \<Rightarrow> ('a, 'f) detector \<Rightarrow> 'a list list \<Rightarrow> ('a, 'f) outcome option" where
  "session e d calls =
     (case detect_all e d calls of
        None \<Rightarrow> None
      | Some (Inl x) \<Rightarrow> Some (Inl x)
      | Some (Inr d') \<Rightarrow> complete_detection e d')"

text \<open>The clips the listener has received when a call or a session ends.\<close>

definition emitted :: "('a, 'f) outcome \<Rightarrow> 'f clip list" where
  "emitted r = (case r of Inl (err, l) \<Rightarrow> clips l | Inr d \<Rightarrow> clips (listener d))"

subsection \<open>What one chunk contributes\<close>

text \<open>
  The expressions of \<open>_notify_listener_of_clips\<close> for one peak index \<open>p\<close>, as functions
  of the detector at the start of the chunk: the start index of the clip, and the
  condition under which one of the two warnings is logged instead of a call of
  \<open>process_clip\<close>.
\<close>

definition clip_start_index_of :: "('a, 'f) env \<Rightarrow> ('a, 'f) detector \<Rightarrow> int \<Rightarrow> int" where
  "clip_start_index_of e d p =
     seconds_to_frames e
       (get_duration e (int64 (p * hop_size d)) (classifier_sample_rate d))
       (input_sample_rate d)
     + (input_chunk_start_index d + clip_start_offset d)"

definition rejected :: "('a, 'f) env \<Rightarrow> ('a, 'f) detector \<Rightarrow> int \<Rightarrow> int \<Rightarrow> bool" where
  "rejected e d input_length p \<longleftrightarrow>
     clip_start_index_of e d p < 0 \<or>
     clip_start_index_of e d p + clip_length d > input_chunk_start_index d + input_length"

definition accepted_clips ::
  "('a, 'f) env \<Rightarrow> ('a, 'f) detector \<Rightarrow> int \<Rightarrow> 'f \<Rightarrow> int list \<Rightarrow> 'f clip list" where
  "accepted_clips e d input_length thr peak_indices =
     map (\<lambda>p. (clip_start_index_of e d p, clip_length d, thr))
       (filter (\<lambda>p. \<not> rejected e d input_length p) peak_indices)"

definition rejection_warnings ::
  "('a, 'f) env \<Rightarrow> ('a, 'f) detector \<Rightarrow> int \<Rightarrow> int list \<Rightarrow> string list" where
  "rejection_warnings e d input_length peak_indices =
     map (\<lambda>p. if clip_start_index_of e d p < 0
               then ''Rejected clip that started before beginning of recording.''
               else ''Rejected clip that ended after end of recording chunk.'')
       (filter (rejected e d input_length) peak_indices)"

text \<open>The clips and warnings of all thresholds of a chunk, in the order of the loop over
  \<open>self._thresholds\<close>.\<close>

definition chunk_clips ::
  "('a, 'f) env \<Rightarrow> ('a, 'f) detector \<Rightarrow> 'f list \<Rightarrow> int \<Rightarrow> 'f list \<Rightarrow> 'f clip list" where
  "chunk_clips e d scores input_length thrs =
     concat (map (\<lambda>thr. accepted_clips e d input_length thr
                          (detector_find_peaks e d scores thr)) thrs)"

definition chunk_warnings ::
  "('a, 'f) env \<Rightarrow> ('a, 'f) detector \<Rightarrow> 'f list \<Rightarrow> int \<Rightarrow> 'f list \<Rightarrow> string list" where
  "chunk_warnings e d scores input_length thrs =
     concat (map (\<lambda>thr. rejection_warnings e d input_length
                          (detector_find_peaks e d scores thr)) thrs)"

text \<open>The samples handed to \<open>_get_analysis_records\<close>: resampled when the two rates
  differ.\<close>

definition to_classifier_rate :: "('a, 'f) env \<Rightarrow> ('a, 'f) detector \<Rightarrow> 'a list \<Rightarrow> 'a list" where
  "to_classifier_rate e d samples =
     (if classifier_sample_rate d \<noteq> input_sample_rate d then
        resample e samples (input_sample_rate d) (classifier_sample_rate d)
      else samples)"

subsection \<open>Auxiliary notions\<close>

text \<open>Two detectors with the same values of the attributes that only \<open>__init__\<close>
  assigns.\<close>

definition same_configuration :: "('a, 'f) detector \<Rightarrow> ('a, 'f) detector \<Rightarrow> bool" where
  "same_configuration d d' \<longleftrightarrow>
     input_sample_rate d' = input_sample_rate d \<and>
     input_chunk_size d' = input_chunk_size d \<and>
     thresholds d' = thresholds d \<and>
     min_separation d' = min_separation d \<and>
     clip_start_offset d' = clip_start_offset d \<and>
     clip_length d' = clip_length d \<and>
     classifier_sample_rate d' = classifier_sample_rate d \<and>
     classifier_waveform_length d' = classifier_waveform_length d \<and>
     hop_size d' = hop_size d"

text \<open>The samples in the input buffer; none while the buffer is still \<open>None\<close>.\<close>

definition buffered :: "('a, 'f) detector \<Rightarrow> 'a list" where
  "buffered d = (case input_buffer d of None \<Rightarrow> [] | Some b \<Rightarrow> b)"

subsection \<open>A concrete detector\<close>

text \<open>
  Collaborators for the examples: numbers are rationals, \<open>seconds_to_frames\<close> rounds
  the product of duration and rate to the nearest integer (no example has a product
  halfway between two integers), \<open>get_duration\<close> divides the
  frame count by the rate, \<open>find_peaks\<close> returns the indices of the interior local maxima
  at or above the threshold and, given a minimum separation, leaves out a maximum that is
  closer than that to the last one it kept, \<open>resample\<close> repeats every sample when the output rate is
  twice the input rate, and the scorer gives 1 to a record that starts with two samples
  of value 1 and 0 to any other record.
\<close>

fun ex_suppress :: "rat \<Rightarrow> int option \<Rightarrow> int list \<Rightarrow> int list" where
  "ex_suppress sep kept [] = []"
| "ex_suppress sep None (p # ps) = p # ex_suppress sep (Some p) ps"
| "ex_suppress sep (Some q) (p # ps) =
     (if sep \<le> of_int (p - q) then p # ex_suppress sep (Some p) ps
      else ex_suppress sep (Some q) ps)"

definition ex_find_peaks :: "rat list \<Rightarrow> rat \<Rightarrow> rat option \<Rightarrow> int list" where
  "ex_find_peaks scores thr min_sep =
     (let maxima =
        map int (filter (\<lambda>i. thr \<le> scores ! i \<and> scores ! (i - 1) < scores ! i \<and>
                              scores ! (i + 1) \<le> scores ! i)
                   [1 ..< length scores - 1])
      in case min_sep of None \<Rightarrow> maxima | Some sep \<Rightarrow> ex_suppress sep None maxima)"

definition ex_env :: "(rat, rat) env" where
  "ex_env =
     \<lparr> seconds_to_frames = (\<lambda>t fs. \<lfloor>t * fs + 1 / 2\<rfloor>),
       get_duration = (\<lambda>n fs. of_int n / fs),
       find_peaks = ex_find_peaks,
       resample = (\<lambda>xs fin fout. if fout = 2 * fin then concat (map (\<lambda>x. [x, x]) xs) else xs),
       score_dataset_examples = map (\<lambda>w. if take 2 w = [1, 1] then 1 else 0),
       num_div = (\<lambda>x y. x / y),
       num_mul = (\<lambda>x y. x * y),
       num_of_int = of_int \<rparr>"

definition ex_detector :: "(rat, rat) detector" where
  "ex_detector =
     \<lparr> input_sample_rate = 12000,
       listener = new_listener,
       input_buffer = None,
       input_chunk_size = 100,
       thresholds = [1 / 2],
       min_separation = None,
       clip_start_offset = 0,
       clip_length = 2,
       input_chunk_start_index = 0,
       classifier_sample_rate = 24000,
       classifier_waveform_length = 6,
       hop_size = 1,
       warnings = [] \<rparr>"

text \<open>A detector whose input already has the sample rate of the classifier, with chunks
  of ten samples.\<close>

definition ex_detector_10 :: "(rat, rat) detector" where
  "ex_detector_10 = ex_detector\<lparr>input_chunk_size := 10, classifier_sample_rate := 12000\<rparr>"

text \<open>The settings objects of the module, with the numbers as rationals.\<close>

definition TSEEP_SETTINGS :: "rat settings" where
  "TSEEP_SETTINGS =
     \<lparr> clip_type = ''Tseep'',
       input_chunk_size = 3600,
       hop_size = 50,
       threshold = 9 / 10,
       min_separation = Some (2 / 10),
       initial_clip_padding = 1 / 10,
       clip_duration = 4 / 10 \<rparr>"

definition THRUSH_SETTINGS :: "rat settings" where
  "THRUSH_SETTINGS =
     \<lparr> clip_type = ''Thrush'',
       input_chunk_size = 3600,
       hop_size = 50,
       threshold = 9 / 10,
       min_separation = Some (3 / 10),
       initial_clip_padding = 2 / 10,
       clip_duration = 6 / 10 \<rparr>"

text \<open>\<open>TseepDetector\<close> and \<open>ThrushDetector\<close>: a \<open>_Detector\<close> with fixed settings.\<close>

definition TseepDetector ::
  "('a, rat) env \<Rightarrow> rat classifier_settings \<Rightarrow> rat \<Rightarrow> rat list option \<Rightarrow> ('a, rat) detector" where
  "TseepDetector e cs sample_rate extra_thresholds =
     init e TSEEP_SETTINGS cs sample_rate extra_thresholds"

definition ThrushDetector ::
  "('a, rat) env \<Rightarrow> rat classifier_settings \<Rightarrow> rat \<Rightarrow> rat list option \<Rightarrow> ('a, rat) detector" where
  "ThrushDetector e cs sample_rate extra_thresholds =
     init e THRUSH_SETTINGS cs sample_rate extra_thresholds"

text \<open>Classifier settings for the examples (the settings file is not among the sources),
  and the tseep settings with a hop size of zero percent.\<close>

definition ex_classifier_settings :: "rat classifier_settings" where
  "ex_classifier_settings = \<lparr> waveform_sample_rate = 24000, waveform_duration = 1 / 5 \<rparr>"

definition zero_hop_settings :: "rat settings" where
  "zero_hop_settings = TSEEP_SETTINGS\<lparr>settings.hop_size := 0\<rparr>"

subsection \<open>The separation of peaks\<close>

text \<open>
  Modelled from the spec: the function \<open>find_peaks\<close> of \<open>vesper.util.signal_utils\<close> is
  not among the source files. The specification gives its contract for a minimum
  separation in windows: the indices are returned in ascending order, and consecutive
  accepted peaks are at least the minimum separation apart.
\<close>

definition peaks_separated :: "rat \<Rightarrow> int list \<Rightarrow> bool" where
  "peaks_separated min_separation_windows peak_indices \<longleftrightarrow>
     successively (\<lambda>p q. p < q \<and> min_separation_windows \<le> of_int (q - p)) peak_indices"

text \<open>
  Modelled from the spec: the functions \<open>seconds_to_frames\<close> and \<open>get_duration\<close> of
  \<open>vesper.util.signal_utils\<close> are not among the source files. The specification has
  durations converted to sample counts and back through the sample rate; in exact
  arithmetic that is: a frame count is the product of duration and rate rounded to a
  nearest integer, a duration is the frame count divided by the rate, and \<open>/\<close> is
  division.
\<close>

definition exact_conversions :: "('a, rat) env \<Rightarrow> bool" where
  "exact_conversions e \<longleftrightarrow>
     (\<forall>t fs. \<bar>of_int (seconds_to_frames e t fs) - t * fs\<bar> \<le> 1 / 2) \<and>
     (\<forall>n fs. fs \<noteq> 0 \<longrightarrow> get_duration e n fs = of_int n / fs) \<and>
     (\<forall>x y. y \<noteq> 0 \<longrightarrow> num_div e x y = x / y)"

text \<open>A detector with an input rate of 4800, a classifier rate of 24000, a hop of 2404
  samples and a minimum separation of just under two hops, \<open>19231 / 96000\<close> seconds
  (\<open>961.55\<close> input samples, \<open>19231 / 9616\<close> hops).\<close>

definition ex_detector_sep :: "(rat, rat) detector" where
  "ex_detector_sep =
     \<lparr> input_sample_rate = 4800,
       listener = new_listener,
       input_buffer = None,
       input_chunk_size = 17280000,
       thresholds = [9 / 10],
       min_separation = Some (19231 / 96000),
       clip_start_offset = - 480,
       clip_length = 1920,
       input_chunk_start_index = 0,
       classifier_sample_rate = 24000,
       classifier_waveform_length = 4808,
       hop_size = 2404,
       warnings = [] \<rparr>"

section \<open>Properties\<close>

subsection \<open>Windowing\<close>

lemma get_num_analysis_records_fits:
  assumes "get_num_analysis_records n r h = Inr m" and "0 \<le> k" and "k < m"
  shows "k * h + r \<le> n"
proof -
  from assms have h: "0 < h" "h \<le> r" "r \<le> n" and m: "m = (n - (r - h)) div h"
    by (auto simp: get_num_analysis_records_def Let_def split: if_splits)
  from \<open>k < m\<close> have "k + 1 \<le> (n - (r - h)) div h" using m by simp
  then have "(k + 1) * h \<le> (n - (r - h)) div h * h"
    using h(1) by (simp add: mult_right_mono)
  also have "\<dots> \<le> n - (r - h)"
    using h(1) by (metis div_mult_mod_eq le_add_same_cancel1 pos_mod_sign)
  finally show ?thesis by (simp add: algebra_simps)
qed

lemma get_num_analysis_records_nonneg:
  "get_num_analysis_records n r h = Inr m \<Longrightarrow> 0 \<le> m"
  by (auto simp: get_num_analysis_records_def Let_def pos_imp_zdiv_nonneg_iff split: if_splits)

lemma get_analysis_records_length:
  assumes "get_analysis_records samples r h = Inr ws"
  shows "get_num_analysis_records (int (length samples)) r h = Inr (int (length ws))"
  using assms get_num_analysis_records_nonneg[of "int (length samples)" r h]
  by (auto simp: get_analysis_records_def Let_def split: sum.splits)

lemma get_analysis_records_record_length:
  assumes "get_analysis_records samples r h = Inr ws" and "w \<in> set ws"
  shows "int (length w) = r"
proof -
  from assms(1) obtain m where m: "get_num_analysis_records (int (length samples)) r h = Inr m"
    and ws: "ws = map (\<lambda>k. take (nat r) (drop (k * nat h) samples)) [0 ..< nat m]"
    by (auto simp: get_analysis_records_def Let_def split: sum.splits)
  from m have pos: "0 < h" "0 < r"
    by (auto simp: get_num_analysis_records_def split: if_splits)
  from assms(2) ws obtain k where k: "k < nat m" and w: "w = take (nat r) (drop (k * nat h) samples)"
    by auto
  have "int k * h + r \<le> int (length samples)"
    using get_num_analysis_records_fits[OF m, of "int k"] k by simp
  moreover have "int (k * nat h + nat r) = int k * h + r"
    using pos by simp
  ultimately have "k * nat h + nat r \<le> length samples"
    by linarith
  then show ?thesis using w pos by simp
qed

text \<open>
  Claim C4. The windowing step raises \<open>ValueError\<close> when the record length is not
  positive, the hop length is not positive or the hop length exceeds the record length.
  Otherwise it returns windows: none when there are fewer samples than the record length,
  \<open>(n - (record_length - hop_length)) div hop_length\<close> of them when there are \<open>n\<close>
  samples, and every window has \<open>record_length\<close> samples.
\<close>

theorem analysis_records_count:
  "(record_length \<le> 0 \<or> hop_length \<le> 0 \<or> hop_length > record_length \<longrightarrow>
      (\<exists>msg. get_analysis_records samples record_length hop_length = Inl (ValueError msg))) \<and>
   (\<not> (record_length \<le> 0 \<or> hop_length \<le> 0 \<or> hop_length > record_length) \<longrightarrow>
      (\<exists>ws. get_analysis_records samples record_length hop_length = Inr ws \<and>
         int (length ws) =
           (if int (length samples) < record_length then 0
            else (int (length samples) - (record_length - hop_length)) div hop_length) \<and>
         (\<forall>w \<in> set ws. int (length w) = record_length)))"
proof (intro conjI impI)
  assume "record_length \<le> 0 \<or> hop_length \<le> 0 \<or> hop_length > record_length"
  then show "\<exists>msg. get_analysis_records samples record_length hop_length = Inl (ValueError msg)"
    by (cases "record_length \<le> 0"; cases "hop_length \<le> 0")
      (simp_all add: get_analysis_records_def get_num_analysis_records_def Let_def)
next
  assume ok: "\<not> (record_length \<le> 0 \<or> hop_length \<le> 0 \<or> hop_length > record_length)"
  let ?n = "int (length samples)"
  let ?m = "if ?n < record_length then 0 else (?n - (record_length - hop_length)) div hop_length"
  from ok have num: "get_num_analysis_records ?n record_length hop_length = Inr ?m"
    by (simp add: get_num_analysis_records_def)
  then obtain ws where ws: "get_analysis_records samples record_length hop_length = Inr ws"
    by (auto simp: get_analysis_records_def)
  from get_analysis_records_length[OF ws] num have "int (length ws) = ?m" by simp
  with ws get_analysis_records_record_length[OF ws]
  show "\<exists>ws. get_analysis_records samples record_length hop_length = Inr ws \<and>
         int (length ws) = ?m \<and> (\<forall>w \<in> set ws. int (length w) = record_length)"
    by blast
qed

theorem analysis_records_count_witness:
  "(\<exists>ws. get_analysis_records [1, 2, 3, 4, 5, 6, 7, 8, 9, 10 :: nat] 4 2 = Inr ws \<and>
      int (length ws) = 4 \<and> list_all (\<lambda>w. int (length w) = 4) ws) \<and>
   (\<exists>msg. get_analysis_records [1, 2, 3 :: nat] 2 3 = Inl (ValueError msg))"
  using analysis_records_count [of 4 2 "[1, 2, 3, 4, 5, 6, 7, 8, 9, 10 :: nat]"]
    analysis_records_count [of 2 3 "[1, 2, 3 :: nat]"]
  by (simp add: list_all_iff)

subsection \<open>The loop over the peaks\<close>

lemma notify_loop_eq:
  assumes "so = input_chunk_start_index d0 + clip_start_offset d0"
    and "d = d0\<lparr>listener := l, warnings := w\<rparr>"
  shows "notify_loop e so il thr d (map (\<lambda>p. int64 (p * hop_size d0)) ps) =
     d0\<lparr>listener := l\<lparr>clips := clips l @ accepted_clips e d0 il thr ps\<rparr>,
        warnings := w @ rejection_warnings e d0 il ps\<rparr>"
  using assms(2)
proof (induction ps arbitrary: d l w)
  case Nil
  then show ?case by (simp add: accepted_clips_def rejection_warnings_def)
next
  case (Cons p ps)
  show ?case
  proof (cases "rejected e d0 il p")
    case True
    let ?m = "if clip_start_index_of e d0 p < 0
               then ''Rejected clip that started before beginning of recording.''
               else ''Rejected clip that ended after end of recording chunk.''"
    have step: "notify_step e so il thr d (int64 (p * hop_size d0)) = d0\<lparr>listener := l, warnings := w @ [?m]\<rparr>"
      using True Cons.prems assms(1)
      by (auto simp: notify_step_def Let_def rejected_def clip_start_index_of_def)
    show ?thesis
      using Cons.IH[OF step] True
      by (simp add: accepted_clips_def rejection_warnings_def)
  next
    case False
    have step: "notify_step e so il thr d (int64 (p * hop_size d0)) =
       d0\<lparr>listener := l\<lparr>clips := clips l @ [(clip_start_index_of e d0 p, clip_length d0, thr)]\<rparr>, warnings := w\<rparr>"
      using False Cons.prems assms(1)
      by (auto simp: notify_step_def Let_def rejected_def clip_start_index_of_def process_clip_def)
    show ?thesis
      using Cons.IH[OF step] False
      by (simp add: accepted_clips_def rejection_warnings_def)
  qed
qed

lemma notify_listener_of_clips_eq:
  "notify_listener_of_clips e d peak_indices input_length thr =
     d\<lparr>listener := (listener d)\<lparr>clips := clips (listener d) @
                        accepted_clips e d input_length thr peak_indices\<rparr>,
       warnings := warnings d @ rejection_warnings e d input_length peak_indices\<rparr>"
  unfolding notify_listener_of_clips_def Let_def
  by (rule notify_loop_eq) simp_all

text \<open>
  Claim C3. For a hop size and peak indices that are 64-bit integers,
  \<open>_notify_listener_of_clips\<close> never raises, and it handles every peak index: the
  listener receives, in the order of the peaks, one clip for every peak that is not
  rejected, and one warning is logged for every peak that is rejected, where a peak is
  rejected if and only if its clip starts before index 0 or ends after the end of the
  current chunk. The start index of the clip is the one the code computes, from the
  product of peak index and hop size as a 64-bit integer. Nothing else of the detector
  changes.
\<close>

theorem clip_rejected_iff_out_of_range:
  assumes "is_int64 (hop_size d)" and "list_all is_int64 peak_indices"
  shows "notify_listener_of_clips e d peak_indices input_length thr =
     d\<lparr>listener := (listener d)\<lparr>clips := clips (listener d) @
          map (\<lambda>p. (clip_start_index_of e d p, clip_length d, thr))
            (filter (\<lambda>p. \<not> (clip_start_index_of e d p < 0 \<or>
                              clip_start_index_of e d p + clip_length d
                                > input_chunk_start_index d + input_length))
               peak_indices)\<rparr>,
       warnings := warnings d @ rejection_warnings e d input_length peak_indices\<rparr> \<and>
   length (rejection_warnings e d input_length peak_indices) =
     length (filter (\<lambda>p. clip_start_index_of e d p < 0 \<or>
                          clip_start_index_of e d p + clip_length d
                            > input_chunk_start_index d + input_length)
               peak_indices)"
  by (simp add: notify_listener_of_clips_eq accepted_clips_def rejection_warnings_def
        rejected_def [abs_def])

text \<open>A hop size of 4 and the peak indices \<open>2 ^ 62\<close>, 1 and 5 in a chunk of ten samples:
  the first product wraps around to 0 and gives a clip at 0, the second gives a clip at 4,
  the third a clip that would end after the chunk.\<close>

theorem clip_rejected_iff_out_of_range_witness:
  "is_int64 (hop_size (ex_detector_10\<lparr>hop_size := 4\<rparr>)) \<and>
   list_all is_int64 [2 ^ 62, 1, 5] \<and>
   notify_listener_of_clips ex_env (ex_detector_10\<lparr>hop_size := 4\<rparr>) [2 ^ 62, 1, 5] 10 (1 / 2) =
     ex_detector_10
       \<lparr>hop_size := 4,
        listener := \<lparr>clips = [(0, 2, 1 / 2), (4, 2, 1 / 2)], completions = 0\<rparr>,
        warnings := [''Rejected clip that ended after end of recording chunk.'']\<rparr>"
proof -
  let ?d = "ex_detector_10\<lparr>hop_size := 4\<rparr>"
  have h: "is_int64 (hop_size ?d)"
    by (simp add: is_int64_def)
  have p: "list_all is_int64 [2 ^ 62, 1, 5]"
    by (simp add: is_int64_def)
  have v: "notify_listener_of_clips ex_env ?d [2 ^ 62, 1, 5] 10 (1 / 2) =
     ex_detector_10
       \<lparr>hop_size := 4,
        listener := \<lparr>clips = [(0, 2, 1 / 2), (4, 2, 1 / 2)], completions = 0\<rparr>,
        warnings := [''Rejected clip that ended after end of recording chunk.'']\<rparr>"
    by code_simp
  from clip_rejected_iff_out_of_range[OF h p, of ex_env 10 "1 / 2"] h p v
  show ?thesis by blast
qed

subsection \<open>The loop over the thresholds and the chunk\<close>

lemma clip_start_index_of_update [simp]:
  "clip_start_index_of e (d\<lparr>listener := l\<rparr>) = clip_start_index_of e d"
  "clip_start_index_of e (d\<lparr>warnings := w\<rparr>) = clip_start_index_of e d"
  "clip_start_index_of e (d\<lparr>input_buffer := b\<rparr>) = clip_start_index_of e d"
  by (simp_all add: clip_start_index_of_def fun_eq_iff)

lemma rejected_update [simp]:
  "rejected e (d\<lparr>listener := l\<rparr>) = rejected e d"
  "rejected e (d\<lparr>warnings := w\<rparr>) = rejected e d"
  "rejected e (d\<lparr>input_buffer := b\<rparr>) = rejected e d"
  by (simp_all add: rejected_def fun_eq_iff)

lemma accepted_clips_update [simp]:
  "accepted_clips e (d\<lparr>listener := l\<rparr>) = accepted_clips e d"
  "accepted_clips e (d\<lparr>warnings := w\<rparr>) = accepted_clips e d"
  "accepted_clips e (d\<lparr>input_buffer := b\<rparr>) = accepted_clips e d"
  by (simp_all add: accepted_clips_def fun_eq_iff)

lemma rejection_warnings_update [simp]:
  "rejection_warnings e (d\<lparr>listener := l\<rparr>) = rejection_warnings e d"
  "rejection_warnings e (d\<lparr>warnings := w\<rparr>) = rejection_warnings e d"
  "rejection_warnings e (d\<lparr>input_buffer := b\<rparr>) = rejection_warnings e d"
  by (simp_all add: rejection_warnings_def fun_eq_iff)

lemma detector_find_peaks_update [simp]:
  "detector_find_peaks e (d\<lparr>listener := l\<rparr>) = detector_find_peaks e d"
  "detector_find_peaks e (d\<lparr>warnings := w\<rparr>) = detector_find_peaks e d"
  "detector_find_peaks e (d\<lparr>input_buffer := b\<rparr>) = detector_find_peaks e d"
  by (simp_all add: detector_find_peaks_def fun_eq_iff Let_def split: option.splits)

lemma chunk_clips_update [simp]:
  "chunk_clips e (d\<lparr>input_buffer := b\<rparr>) = chunk_clips e d"
  by (simp add: chunk_clips_def fun_eq_iff)

lemma chunk_warnings_update [simp]:
  "chunk_warnings e (d\<lparr>input_buffer := b\<rparr>) = chunk_warnings e d"
  by (simp add: chunk_warnings_def fun_eq_iff)

lemma threshold_loop_eq:
  assumes "d = d0\<lparr>listener := l, warnings := w\<rparr>"
  shows "threshold_loop e scores il d thrs =
     d0\<lparr>listener := l\<lparr>clips := clips l @ chunk_clips e d0 scores il thrs\<rparr>,
        warnings := w @ chunk_warnings e d0 scores il thrs\<rparr>"
  using assms
proof (induction thrs arbitrary: d l w)
  case Nil
  then show ?case by (simp add: chunk_clips_def chunk_warnings_def)
next
  case (Cons thr thrs)
  let ?ps = "detector_find_peaks e d0 scores thr"
  have step: "notify_listener_of_clips e d (detector_find_peaks e d scores thr) il thr =
      d0\<lparr>listener := l\<lparr>clips := clips l @ accepted_clips e d0 il thr ?ps\<rparr>,
         warnings := w @ rejection_warnings e d0 il ?ps\<rparr>"
    by (simp add: notify_listener_of_clips_eq Cons.prems)
  show ?case
    using Cons.IH[OF step]
    by (simp add: Let_def chunk_clips_def chunk_warnings_def)
qed

lemma process_input_chunk_eq:
  "process_input_chunk e d samples =
     (case get_analysis_records (to_classifier_rate e d samples)
             (classifier_waveform_length d) (hop_size d) of
        Inl err \<Rightarrow> Inl (err, listener d)
      | Inr waveforms \<Rightarrow>
          Inr (d\<lparr>listener := (listener d)\<lparr>clips := clips (listener d) @
                     chunk_clips e d (score_dataset_examples e waveforms)
                       (int (length samples)) (thresholds d)\<rparr>,
                 warnings := warnings d @
                     chunk_warnings e d (score_dataset_examples e waveforms)
                       (int (length samples)) (thresholds d),
                 input_chunk_start_index := input_chunk_start_index d + int (length samples)\<rparr>))"
proof -
  have d: "d = d\<lparr>listener := listener d, warnings := warnings d\<rparr>" by simp
  show ?thesis
    unfolding process_input_chunk_def Let_def to_classifier_rate_def [symmetric]
    by (simp add: threshold_loop_eq[OF d] split: sum.splits)
qed

lemma accepted_clips_bounds:
  assumes "(st, len, thr') \<in> set (accepted_clips e d il thr ps)"
  shows "0 \<le> st \<and> st + len \<le> input_chunk_start_index d + il \<and> len = clip_length d \<and> thr' = thr"
  using assms by (auto simp: accepted_clips_def rejected_def)

lemma chunk_clips_bounds:
  assumes "(st, len, thr) \<in> set (chunk_clips e d scores il thrs)"
  shows "0 \<le> st \<and> st + len \<le> input_chunk_start_index d + il \<and> len = clip_length d \<and> thr \<in> set thrs"
  using assms accepted_clips_bounds by (fastforce simp: chunk_clips_def)

text \<open>
  Claim C2. Every clip the listener receives while a chunk is processed starts at an index
  that is not negative and ends at or before the end index of that chunk, the chunk start
  index plus the number of input samples of the chunk: the samples up to there have been
  received. This holds for every input, every threshold and every collaborator.
\<close>

theorem emitted_clips_within_received:
  assumes "process_input_chunk e d samples = Inr d'"
  shows "\<exists>new. clips (listener d') = clips (listener d) @ new \<and>
           (\<forall>(start_index, len, thr) \<in> set new.
              0 \<le> start_index \<and>
              start_index + len \<le> input_chunk_start_index d + int (length samples))"
proof -
  from assms obtain ws where
    d': "d' = d\<lparr>listener := (listener d)\<lparr>clips := clips (listener d) @
                     chunk_clips e d (score_dataset_examples e ws)
                       (int (length samples)) (thresholds d)\<rparr>,
                 warnings := warnings d @
                     chunk_warnings e d (score_dataset_examples e ws)
                       (int (length samples)) (thresholds d),
                 input_chunk_start_index := input_chunk_start_index d + int (length samples)\<rparr>"
    by (auto simp: process_input_chunk_eq split: sum.splits)
  show ?thesis
    apply (rule exI[of _ "chunk_clips e d (score_dataset_examples e ws) (int (length samples)) (thresholds d)"])
    using chunk_clips_bounds[of _ _ _ e d "score_dataset_examples e ws" "int (length samples)" "thresholds d"]
    by (auto simp: d')
qed

theorem emitted_clips_within_received_witness:
  "process_input_chunk ex_env ex_detector [0, 1, 0, 0, 0] =
     Inr (ex_detector\<lparr>listener := \<lparr>clips = [(1, 2, 1 / 2)], completions = 0\<rparr>,
                       input_chunk_start_index := 5\<rparr>) \<and>
   (\<exists>new. [(1 :: int, 2 :: int, 1 / 2 :: rat)] = [] @ new \<and>
      list_all (\<lambda>(start_index, len, thr). 0 \<le> start_index \<and> start_index + len \<le> 0 + 5) new)"
proof -
  let ?d' = "ex_detector\<lparr>listener := \<lparr>clips = [(1, 2, 1 / 2)], completions = 0\<rparr>,
                       input_chunk_start_index := 5\<rparr>"
  have r: "process_input_chunk ex_env ex_detector [0, 1, 0, 0, 0] = Inr ?d'"
    by code_simp
  have c: "clips (listener ex_detector) = []" "input_chunk_start_index ex_detector = 0"
    by (simp_all add: ex_detector_def new_listener_def)
  from emitted_clips_within_received[OF r] c r
  show ?thesis by (simp add: list_all_iff)
qed

subsection \<open>The loop over the chunks\<close>

lemma while_None:
  "input_buffer d = None \<Longrightarrow>
   process_input_chunks_while e d =
     Some (Inl (TypeError ''object of type NoneType has no len()'', listener d))"
  by (subst process_input_chunks_while.simps) simp

lemma while_short:
  "input_buffer d = Some buf \<Longrightarrow> int (length buf) < input_chunk_size d \<Longrightarrow>
   process_input_chunks_while e d = Some (Inr d)"
  by (subst process_input_chunks_while.simps) simp

lemma while_chunk:
  "input_buffer d = Some buf \<Longrightarrow> input_chunk_size d \<le> int (length buf) \<Longrightarrow>
   process_input_chunks_while e d =
     (case process_input_chunk e
             (d\<lparr>input_buffer := Some (drop (nat (input_chunk_size d)) buf)\<rparr>)
             (take (nat (input_chunk_size d)) buf) of
        Inl x \<Rightarrow> Some (Inl x)
      | Inr d' \<Rightarrow> process_input_chunks_while e d')"
  by (subst process_input_chunks_while.simps) (simp add: buffer_read_def)

lemma to_classifier_rate_update [simp]:
  "to_classifier_rate e (d\<lparr>input_buffer := b\<rparr>) = to_classifier_rate e d"
  by (simp add: to_classifier_rate_def fun_eq_iff)

lemma process_input_chunk_buffer:
  "process_input_chunk e (d\<lparr>input_buffer := b\<rparr>) samples =
     map_sum id (\<lambda>d'. d'\<lparr>input_buffer := b\<rparr>) (process_input_chunk e d samples)"
  by (simp add: process_input_chunk_eq split: sum.splits)

lemma same_configuration_refl [simp]: "same_configuration d d"
  by (simp add: same_configuration_def)

lemma same_configuration_trans:
  "same_configuration d d' \<Longrightarrow> same_configuration d' d'' \<Longrightarrow> same_configuration d d''"
  by (simp add: same_configuration_def)

lemma same_configuration_update [simp]:
  "same_configuration d (d'\<lparr>input_buffer := b\<rparr>) = same_configuration d d'"
  "same_configuration d (d'\<lparr>listener := l\<rparr>) = same_configuration d d'"
  "same_configuration d (d'\<lparr>warnings := w\<rparr>) = same_configuration d d'"
  "same_configuration d (d'\<lparr>input_chunk_start_index := i\<rparr>) = same_configuration d d'"
  "same_configuration (d\<lparr>input_buffer := b\<rparr>) d' = same_configuration d d'"
  "same_configuration (d\<lparr>listener := l\<rparr>) d' = same_configuration d d'"
  by (simp_all add: same_configuration_def)

lemma process_input_chunk_Inr:
  assumes "process_input_chunk e d samples = Inr d'"
  shows "same_configuration d d'"
    and "input_buffer d' = input_buffer d"
    and "input_chunk_start_index d' = input_chunk_start_index d + int (length samples)"
    and "completions (listener d') = completions (listener d)"
    and "\<exists>new. clips (listener d') = clips (listener d) @ new"
  using assms by (auto simp: process_input_chunk_eq split: sum.splits)

lemma process_input_chunk_Inl:
  assumes "process_input_chunk e d samples = Inl (err, l)"
  shows "l = listener d"
  using assms by (auto simp: process_input_chunk_eq split: sum.splits)

lemma process_input_chunk_valid:
  assumes "0 < hop_size d" and "hop_size d \<le> classifier_waveform_length d"
  shows "\<exists>d'. process_input_chunk e d samples = Inr d'"
proof -
  obtain ws where "get_analysis_records (to_classifier_rate e d samples)
             (classifier_waveform_length d) (hop_size d) = Inr ws"
    using assms
    by (cases "int (length (to_classifier_rate e d samples)) < classifier_waveform_length d")
       (auto simp: get_analysis_records_def get_num_analysis_records_def Let_def)
  then show ?thesis by (simp add: process_input_chunk_eq)
qed

text \<open>Partial correctness of the loop, for every configuration.\<close>

lemma while_Inr_aux:
  assumes "process_input_chunks_while e d = Some r"
  shows "\<forall>d'. r = Inr d' \<longrightarrow>
         same_configuration d d' \<and>
         (\<exists>buf. input_buffer d' = Some buf \<and> int (length buf) < input_chunk_size d') \<and>
         input_chunk_start_index d \<le> input_chunk_start_index d' \<and>
         completions (listener d') = completions (listener d)"
  using assms
proof (induction rule: process_input_chunks_while.raw_induct [rotated, consumes 1, case_names 1])
  case (1 W e d r)
  show ?case
  proof (cases "input_buffer d")
    case None
    with 1(2) show ?thesis by auto
  next
    case (Some buf)
    show ?thesis
    proof (cases "input_chunk_size d \<le> int (length buf)")
      case False
      with 1(2) Some show ?thesis by auto
    next
      case True
      let ?d1 = "d\<lparr>input_buffer := Some (drop (nat (input_chunk_size d)) buf)\<rparr>"
      let ?chunk = "take (nat (input_chunk_size d)) buf"
      show ?thesis
      proof (cases "process_input_chunk e ?d1 ?chunk")
        case (Inl x)
        with 1(2) Some True show ?thesis by (auto simp: buffer_read_def)
      next
        case (Inr d2)
        with 1(2) Some True have w: "W e d2 = Some r" by (simp add: buffer_read_def)
        note p = process_input_chunk_Inr[OF Inr]
        show ?thesis
        proof (intro allI impI)
          fix d' assume r: "r = Inr d'"
          with 1(1)[OF w] have ih: "same_configuration d2 d'"
            "\<exists>buf. input_buffer d' = Some buf \<and> int (length buf) < input_chunk_size d'"
            "input_chunk_start_index d2 \<le> input_chunk_start_index d'"
            "completions (listener d') = completions (listener d2)"
            by blast+
          from p(1) have "same_configuration d d2" by simp
          then have "same_configuration d d'"
            using ih(1) by (rule same_configuration_trans)
          moreover have "input_chunk_start_index d \<le> input_chunk_start_index d'"
            using p(3) ih(3) by simp
          moreover have "completions (listener d') = completions (listener d)"
            using p(4) ih(4) by simp
          ultimately show "same_configuration d d' \<and>
             (\<exists>buf. input_buffer d' = Some buf \<and> int (length buf) < input_chunk_size d') \<and>
             input_chunk_start_index d \<le> input_chunk_start_index d' \<and>
             completions (listener d') = completions (listener d)"
            using ih(2) by blast
        qed
      qed
    qed
  qed
qed

lemma while_Inr:
  assumes "process_input_chunks_while e d = Some (Inr d')"
  shows "same_configuration d d'"
    and "\<exists>buf. input_buffer d' = Some buf \<and> int (length buf) < input_chunk_size d'"
    and "input_chunk_start_index d \<le> input_chunk_start_index d'"
    and "completions (listener d') = completions (listener d)"
  using while_Inr_aux[OF assms] by blast+

text \<open>Termination of the loop for a positive chunk size.\<close>

lemma while_total:
  assumes "0 < input_chunk_size d" and "input_buffer d = Some buf"
  shows "\<exists>r. process_input_chunks_while e d = Some r"
  using assms
proof (induction "length buf" arbitrary: d buf rule: less_induct)
  case less
  let ?c = "input_chunk_size d"
  show ?case
  proof (cases "?c \<le> int (length buf)")
    case False
    then show ?thesis using while_short[OF less.prems(2)] by simp
  next
    case True
    let ?d1 = "d\<lparr>input_buffer := Some (drop (nat ?c) buf)\<rparr>"
    let ?chunk = "take (nat ?c) buf"
    note unfold = while_chunk[OF less.prems(2) True, of e]
    show ?thesis
    proof (cases "process_input_chunk e ?d1 ?chunk")
      case (Inl x)
      then show ?thesis using unfold by simp
    next
      case (Inr d2)
      note p = process_input_chunk_Inr[OF Inr]
      have c2: "0 < input_chunk_size d2"
        using p(1) less.prems(1) by (simp add: same_configuration_def)
      have b2: "input_buffer d2 = Some (drop (nat ?c) buf)"
        using p(2) by simp
      have "length (drop (nat ?c) buf) < length buf"
        using True less.prems(1) by simp
      from less.hyps[OF this c2 b2] show ?thesis
        using unfold Inr by simp
    qed
  qed
qed

text \<open>The loop does not see where the buffered samples were cut by the caller.\<close>

lemma while_append:
  assumes "0 < input_chunk_size d" and "input_buffer d = Some buf"
  shows "process_input_chunks_while e (d\<lparr>input_buffer := Some (buf @ ys)\<rparr>) =
     (case process_input_chunks_while e d of
        None \<Rightarrow> None
      | Some (Inl x) \<Rightarrow> Some (Inl x)
      | Some (Inr d') \<Rightarrow>
          process_input_chunks_while e (d'\<lparr>input_buffer := Some (buffered d' @ ys)\<rparr>))"
  using assms
proof (induction "length buf" arbitrary: d buf rule: less_induct)
  case less
  let ?c = "input_chunk_size d"
  show ?case
  proof (cases "?c \<le> int (length buf)")
    case False
    then show ?thesis
      using while_short[OF less.prems(2), of e] less.prems(2) by (simp add: buffered_def)
  next
    case True
    let ?chunk = "take (nat ?c) buf"
    let ?rest = "drop (nat ?c) buf"
    have n: "nat ?c \<le> length buf" using True by simp
    have lhs: "process_input_chunks_while e (d\<lparr>input_buffer := Some (buf @ ys)\<rparr>) =
       (case process_input_chunk e (d\<lparr>input_buffer := Some (?rest @ ys)\<rparr>) ?chunk of
          Inl x \<Rightarrow> Some (Inl x)
        | Inr d' \<Rightarrow> process_input_chunks_while e d')"
      using while_chunk[of "d\<lparr>input_buffer := Some (buf @ ys)\<rparr>" "buf @ ys" e] True n
      by simp
    note rhs = while_chunk[OF less.prems(2) True, of e]
    show ?thesis
    proof (cases "process_input_chunk e d ?chunk")
      case (Inl x)
      then show ?thesis
        by (simp add: lhs rhs process_input_chunk_buffer)
    next
      case (Inr d2)
      note p = process_input_chunk_Inr[OF Inr]
      let ?d3 = "d2\<lparr>input_buffer := Some ?rest\<rparr>"
      have c3: "0 < input_chunk_size ?d3"
        using p(1) less.prems(1) by (simp add: same_configuration_def)
      have b3: "input_buffer ?d3 = Some ?rest" by simp
      have "length ?rest < length buf"
        using True less.prems(1) by simp
      from less.hyps[OF this c3 b3] show ?thesis
        by (simp add: lhs rhs process_input_chunk_buffer Inr)
    qed
  qed
qed

lemma process_input_chunks_False:
  "process_input_chunks e d False = process_input_chunks_while e d"
  by (simp add: process_input_chunks_def split: option.splits sum.splits)

lemma detect_eq:
  "detect e d samples =
     process_input_chunks_while e (d\<lparr>input_buffer := Some (buffered d @ samples)\<rparr>)"
  by (simp add: detect_def Let_def process_input_chunks_False buffered_def buffer_write_def)

lemma detect_Inr:
  assumes "detect e d samples = Some (Inr d')"
  shows "same_configuration d d'"
    and "\<exists>buf. input_buffer d' = Some buf \<and> int (length buf) < input_chunk_size d'"
    and "input_chunk_start_index d \<le> input_chunk_start_index d'"
    and "completions (listener d') = completions (listener d)"
  using while_Inr[OF assms[unfolded detect_eq]] by simp_all

lemma detect_append:
  assumes "0 < input_chunk_size d"
  shows "detect e d (xs @ ys) =
     (case detect e d xs of
        None \<Rightarrow> None
      | Some (Inl x) \<Rightarrow> Some (Inl x)
      | Some (Inr d') \<Rightarrow> detect e d' ys)"
proof -
  let ?d = "d\<lparr>input_buffer := Some (buffered d @ xs)\<rparr>"
  have "process_input_chunks_while e (?d\<lparr>input_buffer := Some ((buffered d @ xs) @ ys)\<rparr>) =
     (case process_input_chunks_while e ?d of
        None \<Rightarrow> None
      | Some (Inl x) \<Rightarrow> Some (Inl x)
      | Some (Inr d') \<Rightarrow>
          process_input_chunks_while e (d'\<lparr>input_buffer := Some (buffered d' @ ys)\<rparr>))"
    by (rule while_append) (simp_all add: assms)
  then show ?thesis by (simp add: detect_eq split: option.splits sum.splits)
qed

lemma detect_all_concat:
  assumes "0 < input_chunk_size d" and "xss \<noteq> []"
  shows "detect_all e d xss = detect e d (concat xss)"
  using assms
proof (induction xss arbitrary: d)
  case Nil
  then show ?case by simp
next
  case (Cons xs rest)
  show ?case
  proof (cases "rest = []")
    case True
    then show ?thesis by (simp split: option.splits sum.splits)
  next
    case False
    have "detect_all e d (xs # rest) =
       (case detect e d xs of
          None \<Rightarrow> None
        | Some (Inl x) \<Rightarrow> Some (Inl x)
        | Some (Inr d') \<Rightarrow> detect e d' (concat rest))"
    proof (cases "detect e d xs")
      case None
      then show ?thesis by simp
    next
      case (Some r)
      show ?thesis
      proof (cases r)
        case (Inl x)
        with Some show ?thesis by simp
      next
        case (Inr d')
        with Some have "0 < input_chunk_size d'"
          using detect_Inr(1)[of e d xs d'] Cons.prems(1) by (simp add: same_configuration_def)
        from Cons.IH[OF this False] Some Inr show ?thesis by simp
      qed
    qed
    then show ?thesis by (simp add: detect_append[OF Cons.prems(1)])
  qed
qed

text \<open>The loop for a well-formed configuration: it returns, having consumed every whole
  chunk.\<close>

lemma while_valid:
  assumes "0 < input_chunk_size d" and "0 < hop_size d"
    and "hop_size d \<le> classifier_waveform_length d"
    and "input_buffer d = Some buf"
  shows "\<exists>d'. process_input_chunks_while e d = Some (Inr d') \<and>
           input_buffer d' =
             Some (drop (nat (input_chunk_size d) * (length buf div nat (input_chunk_size d))) buf) \<and>
           input_chunk_start_index d' =
             input_chunk_start_index d +
             input_chunk_size d * int (length buf div nat (input_chunk_size d))"
  using assms
proof (induction "length buf" arbitrary: d buf rule: less_induct)
  case less
  let ?c = "input_chunk_size d"
  show ?case
  proof (cases "?c \<le> int (length buf)")
    case False
    then have "length buf div nat ?c = 0" by simp
    then show ?thesis
      using while_short[OF less.prems(4), of e] False less.prems(4) by simp
  next
    case True
    let ?d1 = "d\<lparr>input_buffer := Some (drop (nat ?c) buf)\<rparr>"
    let ?chunk = "take (nat ?c) buf"
    let ?rest = "drop (nat ?c) buf"
    have n: "nat ?c \<le> length buf" "0 < nat ?c" using True less.prems(1) by simp_all
    obtain d2 where p: "process_input_chunk e ?d1 ?chunk = Inr d2"
      using process_input_chunk_valid[of ?d1 e ?chunk] less.prems(2,3) by auto
    note f = process_input_chunk_Inr[OF p]
    have cfg: "input_chunk_size d2 = ?c" "hop_size d2 = hop_size d"
      "classifier_waveform_length d2 = classifier_waveform_length d"
      using f(1) by (simp_all add: same_configuration_def)
    have b2: "input_buffer d2 = Some ?rest" using f(2) by simp
    have i2: "input_chunk_start_index d2 = input_chunk_start_index d + ?c"
      using f(3) n by simp
    have shorter: "length ?rest < length buf" using n by simp
    from less.hyps[OF shorter _ _ _ b2] cfg less.prems
    obtain d' where w: "process_input_chunks_while e d2 = Some (Inr d')"
      and b': "input_buffer d' = Some (drop (nat ?c * (length ?rest div nat ?c)) ?rest)"
      and i': "input_chunk_start_index d' =
                 input_chunk_start_index d2 + ?c * int (length ?rest div nat ?c)"
      by auto
    have k: "length buf div nat ?c = Suc (length ?rest div nat ?c)"
      using n by (simp add: le_div_geq)
    have "process_input_chunks_while e d = Some (Inr d')"
      using while_chunk[OF less.prems(4) True, of e] p w by simp
    moreover have "input_buffer d' = Some (drop (nat ?c * (length buf div nat ?c)) buf)"
      using b' k by (simp add: add.commute)
    moreover have "input_chunk_start_index d' =
        input_chunk_start_index d + ?c * int (length buf div nat ?c)"
      using i' i2 k by (simp add: algebra_simps)
    ultimately show ?thesis by blast
  qed
qed

lemma detect_valid:
  assumes "0 < input_chunk_size d" and "0 < hop_size d"
    and "hop_size d \<le> classifier_waveform_length d"
  shows "\<exists>d'. detect e d samples = Some (Inr d') \<and>
           input_buffer d' =
             Some (drop (nat (input_chunk_size d) *
                          (length (buffered d @ samples) div nat (input_chunk_size d)))
                     (buffered d @ samples)) \<and>
           input_chunk_start_index d' =
             input_chunk_start_index d +
             input_chunk_size d *
               int (length (buffered d @ samples) div nat (input_chunk_size d))"
  using while_valid[of "d\<lparr>input_buffer := Some (buffered d @ samples)\<rparr>" "buffered d @ samples" e]
    assms
  by (simp add: detect_eq)

subsection \<open>Calls of \<open>detect\<close>\<close>

text \<open>
  Claim C10. When a call of \<open>detect\<close> returns, fewer samples than the chunk size are left
  in the input buffer. With a positive chunk size and a hop size that is positive and at
  most the record length the call does return, and what is left in the buffer is what
  follows the last whole chunk of the samples buffered before plus the samples written.
\<close>

theorem detect_leaves_less_than_a_chunk:
  "(detect e d samples = Some (Inr d') \<longrightarrow>
      (\<exists>buf. input_buffer d' = Some buf \<and> int (length buf) < input_chunk_size d' \<and>
             input_chunk_size d' = input_chunk_size d)) \<and>
   (0 < input_chunk_size d \<and> 0 < hop_size d \<and> hop_size d \<le> classifier_waveform_length d \<longrightarrow>
      (\<exists>d''. detect e d samples = Some (Inr d'') \<and>
         input_buffer d'' =
           Some (drop (nat (input_chunk_size d) *
                        (length (buffered d @ samples) div nat (input_chunk_size d)))
                   (buffered d @ samples))))"
proof (intro conjI impI)
  assume r: "detect e d samples = Some (Inr d')"
  from detect_Inr(1,2)[OF r]
  show "\<exists>buf. input_buffer d' = Some buf \<and> int (length buf) < input_chunk_size d' \<and>
             input_chunk_size d' = input_chunk_size d"
    by (auto simp: same_configuration_def)
next
  assume "0 < input_chunk_size d \<and> 0 < hop_size d \<and> hop_size d \<le> classifier_waveform_length d"
  then show "\<exists>d''. detect e d samples = Some (Inr d'') \<and>
         input_buffer d'' =
           Some (drop (nat (input_chunk_size d) *
                        (length (buffered d @ samples) div nat (input_chunk_size d)))
                   (buffered d @ samples))"
    using detect_valid[of d e samples] by blast
qed

theorem detect_leaves_less_than_a_chunk_witness:
  "(0 < input_chunk_size ex_detector_10 \<and> 0 < hop_size ex_detector_10 \<and>
    hop_size ex_detector_10 \<le> classifier_waveform_length ex_detector_10) \<and>
   detect ex_env ex_detector_10 [0, 0, 0, 0, 0, 0, 0, 0, 0, 0, 0, 0, 0] =
     Some (Inr (ex_detector_10\<lparr>input_buffer := Some [0, 0, 0], input_chunk_start_index := 10\<rparr>)) \<and>
   (\<exists>buf. input_buffer (ex_detector_10\<lparr>input_buffer := Some [0, 0, 0],
                                          input_chunk_start_index := 10\<rparr>) = Some buf \<and>
          int (length buf) < 10)"
proof -
  have r: "detect ex_env ex_detector_10 [0, 0, 0, 0, 0, 0, 0, 0, 0, 0, 0, 0, 0] =
     Some (Inr (ex_detector_10\<lparr>input_buffer := Some [0, 0, 0], input_chunk_start_index := 10\<rparr>))"
    by code_simp
  have c: "input_chunk_size ex_detector_10 = 10" "hop_size ex_detector_10 = 1"
    "classifier_waveform_length ex_detector_10 = 6"
    by (simp_all add: ex_detector_10_def ex_detector_def)
  from detect_leaves_less_than_a_chunk[of ex_env ex_detector_10
      "[0, 0, 0, 0, 0, 0, 0, 0, 0, 0, 0, 0, 0]"
      "ex_detector_10\<lparr>input_buffer := Some [0, 0, 0], input_chunk_start_index := 10\<rparr>"] r c
  show ?thesis by simp
qed

text \<open>
  Claim C6, as the code has it. The chunk start index never decreases across a call of
  \<open>detect\<close>. A call does not advance it by the number of samples written: with a
  well-formed configuration it advances it by the chunk size for every whole chunk among
  the samples buffered before plus the samples written.
\<close>

theorem position_advances_by_whole_chunks:
  "(detect e d samples = Some (Inr d') \<longrightarrow>
      input_chunk_start_index d \<le> input_chunk_start_index d') \<and>
   (0 < input_chunk_size d \<and> 0 < hop_size d \<and> hop_size d \<le> classifier_waveform_length d \<longrightarrow>
      (\<exists>d''. detect e d samples = Some (Inr d'') \<and>
         input_chunk_start_index d'' =
           input_chunk_start_index d +
           input_chunk_size d *
             int (length (buffered d @ samples) div nat (input_chunk_size d))))"
proof (intro conjI impI)
  assume r: "detect e d samples = Some (Inr d')"
  from detect_Inr(3)[OF r]
  show "input_chunk_start_index d \<le> input_chunk_start_index d'" .
next
  assume "0 < input_chunk_size d \<and> 0 < hop_size d \<and> hop_size d \<le> classifier_waveform_length d"
  then show "\<exists>d''. detect e d samples = Some (Inr d'') \<and>
         input_chunk_start_index d'' =
           input_chunk_start_index d +
           input_chunk_size d *
             int (length (buffered d @ samples) div nat (input_chunk_size d))"
    using detect_valid[of d e samples] by blast
qed

text \<open>Seven samples are buffered; a call that writes seven more processes one chunk of ten
  samples, and the chunk start index goes from 0 to 10.\<close>

theorem position_advances_by_whole_chunks_witness:
  "(0 < input_chunk_size (ex_detector_10\<lparr>input_buffer := Some [0, 0, 0, 0, 0, 0, 0]\<rparr>) \<and>
    0 < hop_size (ex_detector_10\<lparr>input_buffer := Some [0, 0, 0, 0, 0, 0, 0]\<rparr>) \<and>
    hop_size (ex_detector_10\<lparr>input_buffer := Some [0, 0, 0, 0, 0, 0, 0]\<rparr>)
      \<le> classifier_waveform_length (ex_detector_10\<lparr>input_buffer := Some [0, 0, 0, 0, 0, 0, 0]\<rparr>)) \<and>
   detect ex_env (ex_detector_10\<lparr>input_buffer := Some [0, 0, 0, 0, 0, 0, 0]\<rparr>)
       [0, 0, 0, 0, 0, 0, 0] =
     Some (Inr (ex_detector_10\<lparr>input_buffer := Some [0, 0, 0, 0],
                                input_chunk_start_index := 10\<rparr>)) \<and>
   input_chunk_start_index (ex_detector_10\<lparr>input_buffer := Some [0, 0, 0, 0, 0, 0, 0]\<rparr>)
     \<le> input_chunk_start_index (ex_detector_10\<lparr>input_buffer := Some [0, 0, 0, 0],
                                                 input_chunk_start_index := 10\<rparr>)"
proof -
  let ?d = "ex_detector_10\<lparr>input_buffer := Some [0, 0, 0, 0, 0, 0, 0]\<rparr>"
  let ?d' = "ex_detector_10\<lparr>input_buffer := Some [0, 0, 0, 0], input_chunk_start_index := 10\<rparr>"
  have r: "detect ex_env ?d [0, 0, 0, 0, 0, 0, 0] = Some (Inr ?d')"
    by code_simp
  have c: "input_chunk_size ?d = 10" "hop_size ?d = 1" "classifier_waveform_length ?d = 6"
    by (simp_all add: ex_detector_10_def ex_detector_def)
  from position_advances_by_whole_chunks[of ex_env ?d "[0, 0, 0, 0, 0, 0, 0]" ?d'] r c
  show ?thesis by simp
qed

text \<open>The claim as it was stated fails: the first call writes seven samples and processes
  nothing; the second writes seven samples, processes one chunk and moves the chunk start
  index by ten.\<close>

theorem position_counterexample:
  "detect ex_env ex_detector_10 [0, 0, 0, 0, 0, 0, 0] =
     Some (Inr (ex_detector_10\<lparr>input_buffer := Some [0, 0, 0, 0, 0, 0, 0]\<rparr>)) \<and>
   detect ex_env (ex_detector_10\<lparr>input_buffer := Some [0, 0, 0, 0, 0, 0, 0]\<rparr>)
       [0, 0, 0, 0, 0, 0, 0] =
     Some (Inr (ex_detector_10\<lparr>input_buffer := Some [0, 0, 0, 0],
                                input_chunk_start_index := 10\<rparr>)) \<and>
   input_chunk_start_index
       (ex_detector_10\<lparr>input_buffer := Some [0, 0, 0, 0], input_chunk_start_index := 10\<rparr>) \<noteq>
     input_chunk_start_index (ex_detector_10\<lparr>input_buffer := Some [0, 0, 0, 0, 0, 0, 0]\<rparr>)
       + int (length [0, 0, 0, 0, 0, 0, 0 :: rat])"
  by code_simp

subsection \<open>Sessions\<close>

lemma while_total':
  assumes "0 < input_chunk_size d"
  shows "\<exists>r. process_input_chunks_while e d = Some r"
proof (cases "input_buffer d")
  case None
  then show ?thesis by (simp add: while_None)
next
  case (Some buf)
  with assms show ?thesis by (rule while_total)
qed

lemma while_idem:
  assumes "process_input_chunks_while e d = Some (Inr d')"
  shows "process_input_chunks_while e d' = Some (Inr d')"
  using while_Inr(2)[OF assms] while_short[of d' _ e] by auto

lemma detect_total:
  assumes "0 < input_chunk_size d"
  shows "\<exists>r. detect e d samples = Some r"
  unfolding detect_eq by (rule while_total') (simp add: assms)

lemma detect_all_total:
  assumes "0 < input_chunk_size d"
  shows "\<exists>r. detect_all e d xss = Some r"
  using assms
proof (induction xss arbitrary: d)
  case Nil
  then show ?case by simp
next
  case (Cons xs xss)
  from detect_total[OF Cons.prems, of e xs] obtain r where r: "detect e d xs = Some r" ..
  show ?case
  proof (cases r)
    case (Inl x)
    with r show ?thesis by simp
  next
    case (Inr d')
    with r have "0 < input_chunk_size d'"
      using detect_Inr(1)[of e d xs d'] Cons.prems by (simp add: same_configuration_def)
    from Cons.IH[OF this] r Inr show ?thesis by simp
  qed
qed

lemma complete_detection_total:
  assumes "0 < input_chunk_size d"
  shows "\<exists>r. complete_detection e d = Some r"
proof -
  from while_total'[OF assms, of e] obtain r where "process_input_chunks_while e d = Some r" ..
  then show ?thesis
    by (auto simp: complete_detection_def process_input_chunks_def Let_def buffer_read_all_def
          split: option.splits sum.splits)
qed

lemma detect_all_Inr:
  assumes "detect_all e d xss = Some (Inr d')"
  shows "same_configuration d d'"
  using assms
proof (induction xss arbitrary: d)
  case Nil
  then show ?case by simp
next
  case (Cons xs xss)
  from Cons.prems obtain d1 where d1: "detect e d xs = Some (Inr d1)"
    and rest: "detect_all e d1 xss = Some (Inr d')"
    by (auto split: option.splits sum.splits)
  from detect_Inr(1)[OF d1] Cons.IH[OF rest] show ?case
    by (rule same_configuration_trans)
qed

lemma session_total:
  assumes "0 < input_chunk_size d"
  shows "\<exists>r. session e d xss = Some r"
proof -
  from detect_all_total[OF assms, of e xss] obtain r where r: "detect_all e d xss = Some r" ..
  show ?thesis
  proof (cases r)
    case (Inl x)
    with r show ?thesis by (simp add: session_def)
  next
    case (Inr d')
    with r have "0 < input_chunk_size d'"
      using detect_all_Inr[of e d xss d'] assms by (simp add: same_configuration_def)
    from complete_detection_total[OF this, of e] r Inr show ?thesis
      by (simp add: session_def)
  qed
qed

lemma session_concat:
  assumes "0 < input_chunk_size d" and "xss \<noteq> []"
  shows "session e d xss = session e d [concat xss]"
  using detect_all_concat[OF assms, of e]
  by (simp add: session_def split: option.splits sum.splits)

lemma complete_detection_while:
  "complete_detection e d =
     (case process_input_chunks_while e d of
        None \<Rightarrow> None
      | Some (Inl x) \<Rightarrow> Some (Inl x)
      | Some (Inr d') \<Rightarrow> complete_detection e d')"
proof (cases "process_input_chunks_while e d")
  case None
  then show ?thesis by (simp add: complete_detection_def process_input_chunks_def)
next
  case (Some r)
  show ?thesis
  proof (cases r)
    case (Inl x)
    with Some show ?thesis by (simp add: complete_detection_def process_input_chunks_def)
  next
    case (Inr d')
    with Some while_idem[of e d d'] show ?thesis
      by (simp add: complete_detection_def process_input_chunks_def)
  qed
qed

lemma session_no_call_or_empty_call:
  assumes "0 < input_chunk_size d"
  shows "\<exists>r r'. session e d [] = Some r \<and> session e d [[]] = Some r' \<and> emitted r = emitted r'"
proof (cases "input_buffer d")
  case None
  let ?d0 = "d\<lparr>input_buffer := Some []\<rparr>"
  have w: "process_input_chunks_while e ?d0 = Some (Inr ?d0)"
    by (rule while_short[of _ "[]"]) (simp_all add: assms)
  have "detect e d [] = Some (Inr ?d0)"
    using w None by (simp add: detect_eq buffered_def)
  moreover have "complete_detection e ?d0 =
      Some (Inr (?d0\<lparr>listener := complete_processing (listener ?d0)\<rparr>))"
    using w by (simp add: complete_detection_def process_input_chunks_def)
  ultimately have "session e d [[]] =
      Some (Inr (?d0\<lparr>listener := complete_processing (listener ?d0)\<rparr>))"
    by (simp add: session_def)
  moreover have "session e d [] =
      Some (Inl (TypeError ''object of type NoneType has no len()'', listener d))"
    using None by (simp add: session_def complete_detection_def process_input_chunks_def while_None)
  ultimately show ?thesis
    by (simp add: emitted_def complete_processing_def)
next
  case (Some b)
  then have "d\<lparr>input_buffer := Some (buffered d @ [])\<rparr> = d"
    by (simp add: buffered_def)
  then have "detect e d [] = process_input_chunks_while e d"
    by (simp add: detect_eq)
  then have "session e d [[]] = session e d []"
    using complete_detection_while[of e d]
    by (simp add: session_def split: option.splits sum.splits)
  then show ?thesis using session_total[OF assms, of e "[]"] by auto
qed

text \<open>
  Claim C1. For a positive chunk size, two sequences of \<open>detect\<close> calls that supply the same
  samples, each followed by \<open>complete_detection\<close>, end (normally or with an exception)
  with the listener having received the same clips in the same order; in particular the
  multisets of clips are equal. No condition on where the caller cuts the samples is needed.
\<close>

theorem fragmentation_invariance:
  assumes "0 < input_chunk_size d" and "concat xss = concat yss"
  shows "\<exists>r r'. session e d xss = Some r \<and> session e d yss = Some r' \<and>
           emitted r = emitted r'"
proof -
  have same: "\<exists>r. session e d xss = Some r \<and> session e d yss = Some r"
    if "session e d xss = session e d yss" for xss yss
    using that session_total[OF assms(1), of e xss] by auto
  have one: "session e d zss = session e d [[]]" if "zss \<noteq> []" "concat zss = []" for zss
    using session_concat[OF assms(1) that(1), of e] that(2) by simp
  consider "xss \<noteq> []" "yss \<noteq> []" | "xss = []" "yss = []"
    | "xss = []" "yss \<noteq> []" | "xss \<noteq> []" "yss = []" by blast
  then show ?thesis
  proof cases
    case 1
    then have "session e d xss = session e d yss"
      using session_concat[OF assms(1), of _ e] assms(2) by metis
    from same[OF this] show ?thesis by blast
  next
    case 2
    then show ?thesis using same[of xss yss] by blast
  next
    case 3
    with assms(2) one[of yss] session_no_call_or_empty_call[OF assms(1), of e]
    show ?thesis by auto
  next
    case 4
    with assms(2) one[of xss] session_no_call_or_empty_call[OF assms(1), of e]
    show ?thesis by auto
  qed
qed

text \<open>Thirteen samples, cut after the seventh or after the third and the twelfth: the
  clip found in the first chunk of ten samples is reported either way.\<close>

theorem fragmentation_invariance_witness:
  "0 < input_chunk_size ex_detector_10 \<and>
   concat [[0, 0, 0, 1, 1, 0, 0], [0, 0, 0, 0, 0, 0 :: rat]] =
     concat [[0, 0, 0], [1, 1, 0, 0, 0, 0, 0, 0, 0], [0]] \<and>
   map_option emitted
     (session ex_env ex_detector_10 [[0, 0, 0, 1, 1, 0, 0], [0, 0, 0, 0, 0, 0]]) =
     Some [(3, 2, 1 / 2)] \<and>
   (\<exists>r r'.
      session ex_env ex_detector_10 [[0, 0, 0, 1, 1, 0, 0], [0, 0, 0, 0, 0, 0]] = Some r \<and>
      session ex_env ex_detector_10 [[0, 0, 0], [1, 1, 0, 0, 0, 0, 0, 0, 0], [0]] = Some r' \<and>
      emitted r = emitted r')"
proof -
  have c: "0 < input_chunk_size ex_detector_10"
    by (simp add: ex_detector_10_def)
  have s: "concat [[0, 0, 0, 1, 1, 0, 0], [0, 0, 0, 0, 0, 0 :: rat]] =
     concat [[0, 0, 0], [1, 1, 0, 0, 0, 0, 0, 0, 0], [0]]"
    by simp
  have v: "map_option emitted
     (session ex_env ex_detector_10 [[0, 0, 0, 1, 1, 0, 0], [0, 0, 0, 0, 0, 0]]) =
     Some [(3, 2, 1 / 2)]"
    by code_simp
  from fragmentation_invariance[OF c s, of ex_env] c s v
  show ?thesis by blast
qed

subsection \<open>After completion\<close>

lemma complete_detection_Inr:
  assumes "complete_detection e d = Some (Inr d')"
  shows "same_configuration d d'"
    and "input_buffer d' = Some []"
    and "completions (listener d') = Suc (completions (listener d))"
    and "input_chunk_start_index d \<le> input_chunk_start_index d'"
proof -
  from assms obtain d1 where w: "process_input_chunks_while e d = Some (Inr d1)"
    by (auto simp: complete_detection_def process_input_chunks_def
          split: option.splits sum.splits)
  note f1 = while_Inr[OF w]
  from f1(2) obtain buf1 where b1: "input_buffer d1 = Some buf1" by blast
  have "same_configuration d d' \<and> input_buffer d' = Some [] \<and>
        completions (listener d') = Suc (completions (listener d)) \<and>
        input_chunk_start_index d \<le> input_chunk_start_index d'"
  proof (cases "buf1 = []")
    case True
    with assms w b1 have "d' = d1\<lparr>listener := complete_processing (listener d1)\<rparr>"
      by (simp add: complete_detection_def process_input_chunks_def)
    with f1 b1 True show ?thesis by (simp add: complete_processing_def)
  next
    case False
    with assms w b1 obtain d2 where
      p: "process_input_chunk e (d1\<lparr>input_buffer := Some []\<rparr>) buf1 = Inr d2"
      and d': "d' = d2\<lparr>listener := complete_processing (listener d2)\<rparr>"
      by (auto simp: complete_detection_def process_input_chunks_def buffer_read_all_def
            split: sum.splits)
    note f2 = process_input_chunk_Inr[OF p]
    have "same_configuration d d2"
      using f1(1) f2(1) by (simp add: same_configuration_def)
    with f1 f2 d' show ?thesis by (simp add: complete_processing_def)
  qed
  then show "same_configuration d d'"
    and "input_buffer d' = Some []"
    and "completions (listener d') = Suc (completions (listener d))"
    and "input_chunk_start_index d \<le> input_chunk_start_index d'"
    by blast+
qed

text \<open>
  Claim C8, as the code has it. The detector keeps no record of \<open>complete_detection\<close>
  having been called, and no \<open>InvalidStateError\<close> exists. With a well-formed
  configuration, a call of \<open>detect\<close> after \<open>complete_detection\<close> returns normally: it
  starts from an empty buffer, processes the whole chunks of the new samples, continues
  the chunk start index and does not call \<open>complete_processing\<close>.
\<close>

theorem detect_after_completion_is_accepted:
  assumes "0 < input_chunk_size d" and "0 < hop_size d"
    and "hop_size d \<le> classifier_waveform_length d"
    and "complete_detection e d = Some (Inr d')"
  shows "\<exists>d''. detect e d' samples = Some (Inr d'') \<and>
           input_buffer d'' =
             Some (drop (nat (input_chunk_size d) * (length samples div nat (input_chunk_size d)))
                     samples) \<and>
           input_chunk_start_index d'' =
             input_chunk_start_index d' +
             input_chunk_size d * int (length samples div nat (input_chunk_size d)) \<and>
           completions (listener d'') = completions (listener d')"
proof -
  note f = complete_detection_Inr[OF assms(4)]
  have cfg: "input_chunk_size d' = input_chunk_size d" "hop_size d' = hop_size d"
    "classifier_waveform_length d' = classifier_waveform_length d"
    using f(1) by (simp_all add: same_configuration_def)
  have b: "buffered d' = []" using f(2) by (simp add: buffered_def)
  from detect_valid[of d' e samples] assms(1-3) cfg b
  obtain d'' where r: "detect e d' samples = Some (Inr d'')"
    and "input_buffer d'' =
           Some (drop (nat (input_chunk_size d) * (length samples div nat (input_chunk_size d)))
                   samples)"
    and "input_chunk_start_index d'' =
           input_chunk_start_index d' +
           input_chunk_size d * int (length samples div nat (input_chunk_size d))"
    by auto
  moreover from detect_Inr(4)[OF r]
  have "completions (listener d'') = completions (listener d')" .
  ultimately show ?thesis by blast
qed

theorem detect_after_completion_is_accepted_witness:
  "(0 < input_chunk_size (ex_detector_10\<lparr>input_buffer := Some [0, 0, 0]\<rparr>) \<and>
    0 < hop_size (ex_detector_10\<lparr>input_buffer := Some [0, 0, 0]\<rparr>) \<and>
    hop_size (ex_detector_10\<lparr>input_buffer := Some [0, 0, 0]\<rparr>)
      \<le> classifier_waveform_length (ex_detector_10\<lparr>input_buffer := Some [0, 0, 0]\<rparr>)) \<and>
   complete_detection ex_env (ex_detector_10\<lparr>input_buffer := Some [0, 0, 0]\<rparr>) =
     Some (Inr (ex_detector_10\<lparr>listener := \<lparr>clips = [], completions = 1\<rparr>,
                                input_buffer := Some [], input_chunk_start_index := 3\<rparr>)) \<and>
   (\<exists>d''. detect ex_env
            (ex_detector_10\<lparr>listener := \<lparr>clips = [], completions = 1\<rparr>,
                             input_buffer := Some [], input_chunk_start_index := 3\<rparr>)
            [0, 0] = Some (Inr d'') \<and>
          input_buffer d'' = Some [0, 0] \<and> input_chunk_start_index d'' = 3 \<and>
          completions (listener d'') = 1)"
proof -
  let ?d = "ex_detector_10\<lparr>input_buffer := Some [0, 0, 0]\<rparr>"
  let ?d' = "ex_detector_10\<lparr>listener := \<lparr>clips = [], completions = 1\<rparr>,
                             input_buffer := Some [], input_chunk_start_index := 3\<rparr>"
  have c: "input_chunk_size ?d = 10" "hop_size ?d = 1" "classifier_waveform_length ?d = 6"
    by (simp_all add: ex_detector_10_def ex_detector_def)
  have r: "complete_detection ex_env ?d = Some (Inr ?d')"
    by code_simp
  have v: "completions (listener ?d') = 1" "input_chunk_start_index ?d' = 3" by simp_all
  from detect_after_completion_is_accepted[of ?d ex_env ?d' "[0, 0]"] c r v
  show ?thesis by simp
qed

text \<open>The claim as it was stated fails: after a complete session, \<open>detect\<close> buffers two
  more samples and returns normally.\<close>

theorem detect_after_completion_counterexample:
  "session ex_env ex_detector_10 [[0, 0, 0]] =
     Some (Inr (ex_detector_10\<lparr>listener := \<lparr>clips = [], completions = 1\<rparr>,
                                input_buffer := Some [], input_chunk_start_index := 3\<rparr>)) \<and>
   detect ex_env
     (ex_detector_10\<lparr>listener := \<lparr>clips = [], completions = 1\<rparr>,
                      input_buffer := Some [], input_chunk_start_index := 3\<rparr>)
     [0, 0] =
     Some (Inr (ex_detector_10\<lparr>listener := \<lparr>clips = [], completions = 1\<rparr>,
                                input_buffer := Some [0, 0], input_chunk_start_index := 3\<rparr>))"
  by code_simp

subsection \<open>Malformed configuration\<close>

lemma process_input_chunk_malformed:
  assumes "classifier_waveform_length d \<le> 0 \<or> hop_size d \<le> 0 \<or>
           classifier_waveform_length d < hop_size d"
  shows "\<exists>msg. process_input_chunk e d samples = Inl (ValueError msg, listener d)"
proof -
  from assms obtain msg where
    "get_num_analysis_records (int (length (to_classifier_rate e d samples)))
       (classifier_waveform_length d) (hop_size d) = Inl (ValueError msg)"
    by (cases "classifier_waveform_length d \<le> 0"; cases "hop_size d \<le> 0")
       (simp_all add: get_num_analysis_records_def)
  then show ?thesis
    by (simp add: process_input_chunk_eq get_analysis_records_def)
qed

lemma session_malformed:
  assumes bad: "classifier_waveform_length d \<le> 0 \<or> hop_size d \<le> 0 \<or>
           classifier_waveform_length d < hop_size d"
    and c: "0 < input_chunk_size d" and none: "input_buffer d = None"
    and xs: "xs \<noteq> []"
  shows "\<exists>msg. session e d [xs] = Some (Inl (ValueError msg, listener d))"
proof -
  let ?d1 = "d\<lparr>input_buffer := Some xs\<rparr>"
  have d1: "detect e d xs = process_input_chunks_while e ?d1"
    using none by (simp add: detect_eq buffered_def)
  show ?thesis
  proof (cases "input_chunk_size d \<le> int (length xs)")
    case True
    let ?d2 = "?d1\<lparr>input_buffer := Some (drop (nat (input_chunk_size ?d1)) xs)\<rparr>"
    from process_input_chunk_malformed[of ?d2 e "take (nat (input_chunk_size ?d1)) xs"] bad
    obtain msg where "process_input_chunk e ?d2 (take (nat (input_chunk_size ?d1)) xs) =
        Inl (ValueError msg, listener d)"
      by auto
    then have "process_input_chunks_while e ?d1 = Some (Inl (ValueError msg, listener d))"
      using while_chunk[of ?d1 xs e] True by simp
    then show ?thesis using d1 by (simp add: session_def)
  next
    case False
    then have w: "process_input_chunks_while e ?d1 = Some (Inr ?d1)"
      using while_short[of ?d1 xs e] by simp
    from process_input_chunk_malformed[of "?d1\<lparr>input_buffer := Some []\<rparr>" e xs] bad
    obtain msg where "process_input_chunk e (?d1\<lparr>input_buffer := Some []\<rparr>) xs =
        Inl (ValueError msg, listener d)"
      by auto
    then have "complete_detection e ?d1 = Some (Inl (ValueError msg, listener d))"
      using w xs
      by (simp add: complete_detection_def process_input_chunks_def buffer_read_all_def)
    then show ?thesis using d1 w by (simp add: session_def)
  qed
qed

text \<open>
  Claim C7, as the code has it. The constructor checks nothing: it converts the settings to
  frame counts and always yields a detector. A record length that is not positive, a hop
  size that is not positive or a hop size greater than the record length is found at run
  time: with a positive chunk size, every session that supplies at least one sample ends
  with the \<open>ValueError\<close> of \<open>_get_num_analysis_records\<close>, raised by \<open>detect\<close> or by
  \<open>complete_detection\<close> before the listener is called.
\<close>

theorem malformed_windowing_raises_at_run_time:
  assumes "d = init e s cs fs extra_thresholds"
    and "classifier_waveform_length d \<le> 0 \<or> hop_size d \<le> 0 \<or>
         classifier_waveform_length d < hop_size d"
    and "0 < input_chunk_size d"
    and "concat calls \<noteq> []"
  shows "\<exists>msg. session e d calls = Some (Inl (ValueError msg, new_listener))"
proof -
  have fresh: "input_buffer d = None" "listener d = new_listener"
    using assms(1) by (simp_all add: init_def Let_def)
  from assms(4) have "calls \<noteq> []" by auto
  then have "session e d calls = session e d [concat calls]"
    using session_concat[OF assms(3)] by blast
  with session_malformed[OF assms(2,3) fresh(1) assms(4), of e] fresh(2)
  show ?thesis by simp
qed

theorem malformed_windowing_raises_at_run_time_witness:
  "(classifier_waveform_length
       (init ex_env zero_hop_settings ex_classifier_settings 24000 None :: (rat, rat) detector) \<le> 0 \<or>
    hop_size
       (init ex_env zero_hop_settings ex_classifier_settings 24000 None :: (rat, rat) detector) \<le> 0 \<or>
    classifier_waveform_length
       (init ex_env zero_hop_settings ex_classifier_settings 24000 None :: (rat, rat) detector)
      < hop_size
       (init ex_env zero_hop_settings ex_classifier_settings 24000 None :: (rat, rat) detector)) \<and>
   0 < input_chunk_size
       (init ex_env zero_hop_settings ex_classifier_settings 24000 None :: (rat, rat) detector) \<and>
   concat [[0, 0], [0 :: rat]] \<noteq> [] \<and>
   (\<exists>msg. session ex_env (init ex_env zero_hop_settings ex_classifier_settings 24000 None)
            [[0, 0], [0]] = Some (Inl (ValueError msg, new_listener)))"
proof -
  let ?d = "init ex_env zero_hop_settings ex_classifier_settings 24000 None :: (rat, rat) detector"
  have h: "hop_size ?d = 0" by code_simp
  have c: "input_chunk_size ?d = 86400000" by code_simp
  have n: "concat [[0, 0], [0 :: rat]] \<noteq> []" by simp
  from malformed_windowing_raises_at_run_time[OF refl _ _ n, of ex_env zero_hop_settings
      ex_classifier_settings 24000 None] h c n
  show ?thesis by simp
qed

text \<open>The claim as it was stated fails: with a hop size of zero percent the constructor
  yields a detector whose hop size is 0, and the session fails in \<open>complete_detection\<close>,
  when the three buffered samples are processed.\<close>

theorem malformed_configuration_counterexample:
  "hop_size (init ex_env zero_hop_settings ex_classifier_settings 24000 None
               :: (rat, rat) detector) = 0 \<and>
   session ex_env (init ex_env zero_hop_settings ex_classifier_settings 24000 None)
     [[0, 0, 0]] =
     Some (Inl (ValueError ''Hop size must be positive.'', new_listener))"
  by code_simp

subsection \<open>Short input\<close>

lemma to_classifier_rate_same_configuration:
  "same_configuration d d' \<Longrightarrow> to_classifier_rate e d' = to_classifier_rate e d"
  by (simp add: same_configuration_def to_classifier_rate_def fun_eq_iff)

text \<open>A chunk that is, at the classifier rate, shorter than a record: no records, no
  scores, no peaks.\<close>

lemma process_input_chunk_short:
  assumes "0 < hop_size d" and "hop_size d \<le> classifier_waveform_length d"
    and "score_dataset_examples e [] = []"
    and "\<And>thr ms. find_peaks e [] thr ms = []"
    and "int (length (to_classifier_rate e d samples)) < classifier_waveform_length d"
  shows "process_input_chunk e d samples =
     Inr (d\<lparr>input_chunk_start_index := input_chunk_start_index d + int (length samples)\<rparr>)"
proof -
  have "get_analysis_records (to_classifier_rate e d samples)
          (classifier_waveform_length d) (hop_size d) = Inr []"
    using assms(1,2,5) by (simp add: get_analysis_records_def get_num_analysis_records_def)
  moreover have "chunk_clips e d [] il thrs = []" for il thrs
    by (simp add: chunk_clips_def accepted_clips_def detector_find_peaks_def assms(4))
  moreover have "chunk_warnings e d [] il thrs = []" for il thrs
    by (simp add: chunk_warnings_def rejection_warnings_def detector_find_peaks_def assms(4))
  ultimately show ?thesis
    by (simp add: process_input_chunk_eq assms(3))
qed

lemma while_short_input:
  assumes "0 < input_chunk_size d" and "0 < hop_size d"
    and "hop_size d \<le> classifier_waveform_length d"
    and "score_dataset_examples e [] = []"
    and "\<And>thr ms. find_peaks e [] thr ms = []"
    and "\<And>xs. int (length xs) < classifier_waveform_length d \<Longrightarrow>
           int (length (to_classifier_rate e d xs)) < classifier_waveform_length d"
    and "input_buffer d = Some buf"
    and "int (length buf) < classifier_waveform_length d"
  shows "\<exists>d' buf'. process_input_chunks_while e d = Some (Inr d') \<and>
           listener d' = listener d \<and> same_configuration d d' \<and>
           input_buffer d' = Some buf' \<and> length buf' \<le> length buf"
  using assms(1,2,3,6,7,8)
proof (induction "length buf" arbitrary: d buf rule: less_induct)
  case less
  let ?c = "input_chunk_size d"
  show ?case
  proof (cases "?c \<le> int (length buf)")
    case False
    then show ?thesis using while_short[OF less.prems(5), of e] less.prems(5) by simp
  next
    case True
    let ?rest = "drop (nat ?c) buf"
    let ?chunk = "take (nat ?c) buf"
    let ?d1 = "d\<lparr>input_buffer := Some ?rest\<rparr>"
    let ?d2 = "?d1\<lparr>input_chunk_start_index := input_chunk_start_index ?d1 + int (length ?chunk)\<rparr>"
    have "int (length ?chunk) < classifier_waveform_length d"
      using less.prems(6) by simp
    then have "int (length (to_classifier_rate e d ?chunk)) < classifier_waveform_length d"
      by (rule less.prems(4))
    then have p: "process_input_chunk e ?d1 ?chunk = Inr ?d2"
      using process_input_chunk_short[of ?d1 e ?chunk] less.prems(2,3) assms(4,5) by simp
    have shorter: "length ?rest < length buf" using True less.prems(1) by simp
    have cfg: "same_configuration d ?d2" by simp
    have "\<exists>d' buf'. process_input_chunks_while e ?d2 = Some (Inr d') \<and>
           listener d' = listener ?d2 \<and> same_configuration ?d2 d' \<and>
           input_buffer d' = Some buf' \<and> length buf' \<le> length ?rest"
    proof (rule less.hyps[OF shorter])
      show "0 < input_chunk_size ?d2" using less.prems(1) by simp
      show "0 < hop_size ?d2" using less.prems(2) by simp
      show "hop_size ?d2 \<le> classifier_waveform_length ?d2" using less.prems(3) by simp
      show "input_buffer ?d2 = Some ?rest" by simp
      show "int (length ?rest) < classifier_waveform_length ?d2" using less.prems(6) by simp
      show "int (length (to_classifier_rate e ?d2 xs)) < classifier_waveform_length ?d2"
        if "int (length xs) < classifier_waveform_length ?d2" for xs
      proof -
        have "to_classifier_rate e ?d2 = to_classifier_rate e d"
          using cfg by (rule to_classifier_rate_same_configuration)
        then show ?thesis using that less.prems(4)[of xs] by simp
      qed
    qed
    then obtain d' buf' where w: "process_input_chunks_while e ?d2 = Some (Inr d')"
      and l: "listener d' = listener ?d2" and s: "same_configuration ?d2 d'"
      and b: "input_buffer d' = Some buf'" "length buf' \<le> length ?rest"
      by blast
    have "process_input_chunks_while e d = Some (Inr d')"
      using while_chunk[OF less.prems(5) True, of e] p w by simp
    moreover have "same_configuration d d'"
      using cfg s by (rule same_configuration_trans)
    ultimately show ?thesis using l b by auto
  qed
qed

text \<open>
  Claim C5, as the code has it. Take a detector with a positive chunk size and a hop size
  that is positive and at most the record length, a scorer that returns no scores for no
  records and a peak finder that returns no peaks for no scores, and suppose that bringing
  fewer samples than a record to the classifier rate never yields a record's worth of
  samples (as when the two rates are equal). If \<open>detect\<close> is called at least once on the
  new detector and all the calls together supply fewer samples than the record length,
  then the session returns normally, the listener receives no clip, and
  \<open>complete_processing\<close> is called exactly once.
\<close>

theorem short_input_emits_nothing:
  assumes "0 < input_chunk_size d" and "0 < hop_size d"
    and "hop_size d \<le> classifier_waveform_length d"
    and "score_dataset_examples e [] = []"
    and "\<forall>thr ms. find_peaks e [] thr ms = []"
    and "\<forall>xs. int (length xs) < classifier_waveform_length d \<longrightarrow>
           int (length (to_classifier_rate e d xs)) < classifier_waveform_length d"
    and "input_buffer d = None"
    and "calls \<noteq> []"
    and "int (length (concat calls)) < classifier_waveform_length d"
  shows "\<exists>d'. session e d calls = Some (Inr d') \<and>
           clips (listener d') = clips (listener d) \<and>
           completions (listener d') = Suc (completions (listener d))"
proof -
  let ?xs = "concat calls"
  let ?d0 = "d\<lparr>input_buffer := Some ?xs\<rparr>"
  have fp: "\<And>thr ms. find_peaks e [] thr ms = []" using assms(5) by simp
  have rs: "int (length (to_classifier_rate e d' xs)) < classifier_waveform_length d'"
    if "same_configuration d d'" "int (length xs) < classifier_waveform_length d'" for d' xs
  proof -
    have "to_classifier_rate e d' = to_classifier_rate e d"
      using that(1) by (rule to_classifier_rate_same_configuration)
    moreover have "classifier_waveform_length d' = classifier_waveform_length d"
      using that(1) by (simp add: same_configuration_def)
    ultimately show ?thesis using assms(6) that(2) by simp
  qed
  have "\<exists>d' buf'. process_input_chunks_while e ?d0 = Some (Inr d') \<and>
           listener d' = listener ?d0 \<and> same_configuration ?d0 d' \<and>
           input_buffer d' = Some buf' \<and> length buf' \<le> length ?xs"
  proof (rule while_short_input[OF _ _ _ assms(4) fp])
    show "0 < input_chunk_size ?d0" using assms(1) by simp
    show "0 < hop_size ?d0" using assms(2) by simp
    show "hop_size ?d0 \<le> classifier_waveform_length ?d0" using assms(3) by simp
    show "input_buffer ?d0 = Some ?xs" by simp
    show "int (length ?xs) < classifier_waveform_length ?d0" using assms(9) by simp
    show "int (length (to_classifier_rate e ?d0 xs)) < classifier_waveform_length ?d0"
      if "int (length xs) < classifier_waveform_length ?d0" for xs
      using that rs[of ?d0 xs] by simp
  qed
  then obtain d1 buf1 where w: "process_input_chunks_while e ?d0 = Some (Inr d1)"
    and l1: "listener d1 = listener d" and s1: "same_configuration d d1"
    and b1: "input_buffer d1 = Some buf1" "length buf1 \<le> length ?xs"
    by auto
  have det: "detect e d ?xs = Some (Inr d1)"
    using w assms(7) by (simp add: detect_eq buffered_def)
  have w1: "process_input_chunks_while e d1 = Some (Inr d1)"
    using w by (rule while_idem)
  have "\<exists>d'. complete_detection e d1 = Some (Inr d') \<and>
           clips (listener d') = clips (listener d) \<and>
           completions (listener d') = Suc (completions (listener d))"
  proof (cases "buf1 = []")
    case True
    then show ?thesis
      using w1 b1 l1
      by (simp add: complete_detection_def process_input_chunks_def complete_processing_def)
  next
    case False
    let ?d2 = "d1\<lparr>input_buffer := Some []\<rparr>"
    have short: "int (length buf1) < classifier_waveform_length ?d2"
      using b1(2) assms(9) s1 by (simp add: same_configuration_def)
    have "int (length (to_classifier_rate e ?d2 buf1)) < classifier_waveform_length ?d2"
      using rs[of ?d2 buf1] s1 short by simp
    then have "process_input_chunk e ?d2 buf1 =
        Inr (?d2\<lparr>input_chunk_start_index := input_chunk_start_index ?d2 + int (length buf1)\<rparr>)"
      using process_input_chunk_short[of ?d2 e buf1] assms(2,3,4) fp s1
      by (simp add: same_configuration_def)
    then show ?thesis
      using w1 b1 l1 False
      by (simp add: complete_detection_def process_input_chunks_def complete_processing_def
            buffer_read_all_def)
  qed
  moreover have "session e d calls = session e d [?xs]"
    using session_concat[OF assms(1,8)] .
  ultimately show ?thesis
    using det by (simp add: session_def)
qed

text \<open>Three samples in two calls, with equal rates and a record length of six.\<close>

theorem short_input_emits_nothing_witness:
  "(0 < input_chunk_size ex_detector_10 \<and> 0 < hop_size ex_detector_10 \<and>
    hop_size ex_detector_10 \<le> classifier_waveform_length ex_detector_10 \<and>
    score_dataset_examples ex_env [] = [] \<and>
    find_peaks ex_env [] (1 / 2) None = [] \<and>
    to_classifier_rate ex_env ex_detector_10 [0, 0, 0] = [0, 0, 0] \<and>
    input_buffer ex_detector_10 = None \<and>
    [[0, 0], [0 :: rat]] \<noteq> [] \<and>
    int (length (concat [[0, 0], [0 :: rat]])) < classifier_waveform_length ex_detector_10) \<and>
   (\<exists>d'. session ex_env ex_detector_10 [[0, 0], [0]] = Some (Inr d') \<and>
      clips (listener d') = [] \<and> completions (listener d') = 1)"
proof -
  have c: "input_chunk_size ex_detector_10 = 10" "hop_size ex_detector_10 = 1"
    "classifier_waveform_length ex_detector_10 = 6" "input_buffer ex_detector_10 = None"
    "listener ex_detector_10 = new_listener"
    by (simp_all add: ex_detector_10_def ex_detector_def)
  have sc: "score_dataset_examples ex_env [] = []"
    by (simp add: ex_env_def)
  have fp: "\<forall>thr ms. find_peaks ex_env [] thr ms = []"
    by (simp add: ex_env_def ex_find_peaks_def split: option.splits)
  have rs: "to_classifier_rate ex_env ex_detector_10 xs = xs" for xs
    by (simp add: to_classifier_rate_def ex_detector_10_def ex_detector_def)
  have n: "[[0, 0], [0 :: rat]] \<noteq> []" by simp
  from short_input_emits_nothing[of ex_detector_10 ex_env "[[0, 0], [0]]"] c sc fp rs n
  show ?thesis by (simp add: new_listener_def)
qed

text \<open>The claim as it was stated fails: with an input rate of 12000 and a classifier rate
  of 24000 the five samples of the session become ten, enough for five records of six
  samples, and the peak at record 2 gives a clip.\<close>

theorem short_input_counterexample:
  "int (length [0, 1, 0, 0, 0 :: rat]) < classifier_waveform_length ex_detector \<and>
   session ex_env ex_detector [[0, 1, 0, 0, 0]] =
     Some (Inr (ex_detector\<lparr>listener := \<lparr>clips = [(1, 2, 1 / 2)], completions = 1\<rparr>,
                             input_buffer := Some [], input_chunk_start_index := 5\<rparr>))"
  by code_simp

text \<open>\<open>complete_detection\<close> on a detector whose \<open>detect\<close> was never called: the buffer is
  still \<open>None\<close>, and \<open>len\<close> raises before \<open>complete_processing\<close> is reached.\<close>

lemma complete_detection_without_detect:
  assumes "input_buffer d = None"
  shows "complete_detection e d =
     Some (Inl (TypeError ''object of type NoneType has no len()'', listener d))"
  using assms by (simp add: complete_detection_def process_input_chunks_def while_None)

subsection \<open>The minimum separation handed to the peak finder\<close>

text \<open>\<open>_find_peaks\<close> hands \<open>None\<close> to \<open>find_peaks\<close> when there is no minimum
  separation, and otherwise the minimum separation divided by the duration of a hop.\<close>

lemma detector_find_peaks_separation:
  "detector_find_peaks e d scores thr =
     find_peaks e scores thr
       (map_option
          (\<lambda>ms. num_div e ms (get_duration e (hop_size d) (classifier_sample_rate d)))
          (min_separation d))"
  by (simp add: detector_find_peaks_def Let_def split: option.splits)

subsection \<open>The separation of clips\<close>

lemma int64_id: "is_int64 x \<Longrightarrow> int64 x = x"
  by (simp add: is_int64_def int64_def)

lemma ex_env_exact: "exact_conversions ex_env"
proof -
  have "\<bar>of_int \<lfloor>x + 1 / 2\<rfloor> - x\<bar> \<le> 1 / 2" for x :: rat
    by linarith
  then show ?thesis by (simp add: exact_conversions_def ex_env_def)
qed

lemma peaks_separated_sorted_wrt:
  "peaks_separated sep ps \<longleftrightarrow> sorted_wrt (\<lambda>p q. p < q \<and> sep \<le> of_int (q - p)) ps"
  unfolding peaks_separated_def
proof (rule successively_iff_sorted_wrt_strong)
  fix x y z :: int
  assume "x < y \<and> sep \<le> of_int (y - x)" and "y < z \<and> sep \<le> of_int (z - y)"
  then have "x < z" and "of_int (y - x) \<le> (of_int (z - x) :: rat)" by simp_all
  with \<open>x < y \<and> sep \<le> of_int (y - x)\<close> show "x < z \<and> sep \<le> of_int (z - x)" by linarith
qed

text \<open>Two peaks that are far enough apart in hops give clips whose starts are as far
  apart in input samples, up to the two roundings.\<close>

lemma clip_start_gap:
  fixes e :: "('a, rat) env" and d :: "('a, rat) detector"
  assumes ex: "exact_conversions e"
    and h: "0 < hop_size d" and cr: "0 < classifier_sample_rate d"
    and ir: "0 \<le> input_sample_rate d"
    and p: "is_int64 (p * hop_size d)" and q: "is_int64 (q * hop_size d)"
    and sep: "ms / (of_int (hop_size d) / classifier_sample_rate d) \<le> of_int (q - p)"
  shows "ms * input_sample_rate d - 1
           \<le> of_int (clip_start_index_of e d q - clip_start_index_of e d p)"
proof -
  let ?h = "of_int (hop_size d) :: rat"
  let ?cr = "classifier_sample_rate d"
  let ?ir = "input_sample_rate d"
  let ?x = "\<lambda>p. of_int (p * hop_size d) / ?cr * ?ir"
  let ?f = "\<lambda>p. seconds_to_frames e (get_duration e (int64 (p * hop_size d)) ?cr) ?ir"
  have dur: "get_duration e (int64 (r * hop_size d)) ?cr = of_int (r * hop_size d) / ?cr"
    if "is_int64 (r * hop_size d)" for r
    using ex cr that by (simp add: exact_conversions_def int64_id)
  have near: "\<bar>of_int (seconds_to_frames e t fs) - t * fs\<bar> \<le> 1 / 2" for t fs
    using ex unfolding exact_conversions_def by blast
  have round: "\<bar>of_int (?f r) - ?x r\<bar> \<le> 1 / 2" if "is_int64 (r * hop_size d)" for r
    using near[of "get_duration e (int64 (r * hop_size d)) ?cr" ?ir]
    unfolding dur[OF that] .
  have hop_pos: "0 < ?h / ?cr" using h cr by simp
  from sep have "ms \<le> of_int (q - p) * (?h / ?cr)"
    by (rule pos_divide_le_eq[OF hop_pos, THEN iffD1])
  then have "ms * ?ir \<le> of_int (q - p) * (?h / ?cr) * ?ir"
    using ir by (rule mult_right_mono)
  also have "\<dots> = ?x q - ?x p"
    by (simp add: algebra_simps diff_divide_distrib)
  finally have gap: "ms * ?ir \<le> ?x q - ?x p" .
  have "clip_start_index_of e d q - clip_start_index_of e d p = ?f q - ?f p"
    by (simp add: clip_start_index_of_def)
  moreover have "?x q - ?x p - 1 \<le> of_int (?f q - ?f p)"
  proof -
    have two: "y - x - 1 \<le> b - a"
      if "\<bar>a - x\<bar> \<le> 1 / 2" "\<bar>b - y\<bar> \<le> 1 / 2" for a b x y :: rat
      using that by linarith
    have "?x q - ?x p - 1 \<le> of_int (?f q) - of_int (?f p)"
      using round[OF p] round[OF q] by (rule two)
    then show ?thesis by (simp only: of_int_diff)
  qed
  ultimately show ?thesis using gap by simp
qed

lemma accepted_clips_separated:
  fixes e :: "('a, rat) env" and d :: "('a, rat) detector"
  assumes "exact_conversions e"
    and "0 < hop_size d" and "0 < classifier_sample_rate d" and "0 \<le> input_sample_rate d"
    and "\<forall>p \<in> set ps. is_int64 (p * hop_size d)"
    and "peaks_separated (ms / (of_int (hop_size d) / classifier_sample_rate d)) ps"
  shows "sorted_wrt (\<lambda>a b. ms * input_sample_rate d - 1 \<le> of_int (fst b - fst a))
           (accepted_clips e d il thr ps)"
proof -
  let ?R = "\<lambda>p q. p < q \<and> ms / (of_int (hop_size d) / classifier_sample_rate d) \<le> of_int (q - p)"
  let ?S = "\<lambda>p q. ms * input_sample_rate d - 1
                 \<le> of_int (clip_start_index_of e d q - clip_start_index_of e d p)"
  from assms(6) have "sorted_wrt ?R ps" by (simp add: peaks_separated_sorted_wrt)
  then have "sorted_wrt ?S ps"
  proof (rule sorted_wrt_mono_rel[rotated])
    fix p q assume "p \<in> set ps" "q \<in> set ps" "?R p q"
    then show "?S p q"
      using clip_start_gap[OF assms(1-4), of p q ms] assms(5) by blast
  qed
  then have "sorted_wrt ?S (filter (\<lambda>p. \<not> rejected e d il p) ps)"
    by (rule sorted_wrt_filter)
  then show ?thesis
    by (simp add: accepted_clips_def sorted_wrt_map)
qed


text \<open>
  Claim C9, as the code has it. When there is no minimum separation \<open>_find_peaks\<close> hands
  \<open>None\<close> to \<open>find_peaks\<close>; otherwise it hands it the minimum separation divided by the
  duration of a hop, \<open>get_duration(hop_size, classifier_sample_rate)\<close>. Suppose that
  \<open>find_peaks\<close> honours that separation (ascending peaks, consecutive ones at least that
  many hops apart), that the conversions between durations and frame counts are exact up
  to rounding to a nearest integer, and that no product of a peak index and the hop size
  wraps around. Then of any two clips that one chunk gives for one threshold, the later
  starts at least the minimum separation times the input sample rate, less one sample,
  after the earlier: the two roundings of the starts can take up to one sample off the
  separation.
\<close>

theorem clips_separated_up_to_rounding:
  fixes e :: "('a, rat) env" and d :: "('a, rat) detector"
  shows
  "(min_separation d = None \<longrightarrow>
      detector_find_peaks e d scores thr = find_peaks e scores thr None) \<and>
   (\<forall>ms. min_separation d = Some ms \<longrightarrow>
      detector_find_peaks e d scores thr =
        find_peaks e scores thr
          (Some (num_div e ms (get_duration e (hop_size d) (classifier_sample_rate d)))) \<and>
      (exact_conversions e \<and> 0 < hop_size d \<and> 0 < classifier_sample_rate d \<and>
       0 \<le> input_sample_rate d \<and>
       peaks_separated
         (num_div e ms (get_duration e (hop_size d) (classifier_sample_rate d)))
         (detector_find_peaks e d scores thr) \<and>
       (\<forall>p \<in> set (detector_find_peaks e d scores thr). is_int64 (p * hop_size d)) \<longrightarrow>
         clips (listener (notify_listener_of_clips e d (detector_find_peaks e d scores thr)
                            input_length thr)) =
           clips (listener d) @
             accepted_clips e d input_length thr (detector_find_peaks e d scores thr) \<and>
         sorted_wrt (\<lambda>a b. ms * input_sample_rate d - 1 \<le> of_int (fst b - fst a))
           (accepted_clips e d input_length thr (detector_find_peaks e d scores thr))))"
proof (intro conjI allI impI)
  assume "min_separation d = None"
  then show "detector_find_peaks e d scores thr = find_peaks e scores thr None"
    by (simp add: detector_find_peaks_separation)
next
  fix ms assume "min_separation d = Some ms"
  then show "detector_find_peaks e d scores thr =
        find_peaks e scores thr
          (Some (num_div e ms (get_duration e (hop_size d) (classifier_sample_rate d))))"
    by (simp add: detector_find_peaks_separation)
next
  fix ms
  let ?ps = "detector_find_peaks e d scores thr"
  assume "min_separation d = Some ms"
  assume h: "exact_conversions e \<and> 0 < hop_size d \<and> 0 < classifier_sample_rate d \<and>
       0 \<le> input_sample_rate d \<and>
       peaks_separated
         (num_div e ms (get_duration e (hop_size d) (classifier_sample_rate d))) ?ps \<and>
       (\<forall>p \<in> set ?ps. is_int64 (p * hop_size d))"
  show "clips (listener (notify_listener_of_clips e d ?ps input_length thr)) =
           clips (listener d) @ accepted_clips e d input_length thr ?ps"
    by (simp add: notify_listener_of_clips_eq)
  have cr: "classifier_sample_rate d \<noteq> 0" using h by simp
  then have hop: "get_duration e (hop_size d) (classifier_sample_rate d) =
      of_int (hop_size d) / classifier_sample_rate d"
    using h by (simp add: exact_conversions_def)
  have "of_int (hop_size d) / classifier_sample_rate d \<noteq> 0" using h by simp
  then have "num_div e ms (get_duration e (hop_size d) (classifier_sample_rate d)) =
      ms / (of_int (hop_size d) / classifier_sample_rate d)"
    using h unfolding hop exact_conversions_def by blast
  with h have "peaks_separated (ms / (of_int (hop_size d) / classifier_sample_rate d)) ?ps"
    by simp
  with h show "sorted_wrt (\<lambda>a b. ms * input_sample_rate d - 1 \<le> of_int (fst b - fst a))
           (accepted_clips e d input_length thr ?ps)"
    by (intro accepted_clips_separated) simp_all
qed

theorem clips_separated_up_to_rounding_witness:
  "(min_separation ex_detector = None \<and>
    detector_find_peaks ex_env ex_detector [0, 0, 1, 0, 0] (1 / 2) =
      find_peaks ex_env [0, 0, 1, 0, 0] (1 / 2) None) \<and>
   (min_separation ex_detector_sep = Some (19231 / 96000) \<and>
    exact_conversions ex_env \<and> 0 < hop_size ex_detector_sep \<and>
    0 < classifier_sample_rate ex_detector_sep \<and> 0 \<le> input_sample_rate ex_detector_sep \<and>
    peaks_separated
      (num_div ex_env (19231 / 96000)
         (get_duration ex_env (hop_size ex_detector_sep)
            (classifier_sample_rate ex_detector_sep)))
      (detector_find_peaks ex_env ex_detector_sep [0, 0, 1, 0, 1, 0] (9 / 10)) \<and>
    list_all (\<lambda>p. is_int64 (p * hop_size ex_detector_sep))
      (detector_find_peaks ex_env ex_detector_sep [0, 0, 1, 0, 1, 0] (9 / 10))) \<and>
   accepted_clips ex_env ex_detector_sep 10000 (9 / 10)
       (detector_find_peaks ex_env ex_detector_sep [0, 0, 1, 0, 1, 0] (9 / 10)) =
     [(482, 1920, 9 / 10), (1443, 1920, 9 / 10)] \<and>
   sorted_wrt (\<lambda>a b. 19231 / 96000 * input_sample_rate ex_detector_sep - 1
                      \<le> of_int (fst b - fst a))
     [(482 :: int, 1920 :: int, 9 / 10 :: rat), (1443, 1920, 9 / 10)]"
proof -
  let ?ps = "detector_find_peaks ex_env ex_detector_sep [0, 0, 1, 0, 1, 0] (9 / 10)"
  have n: "min_separation ex_detector = None"
    by (simp add: ex_detector_def)
  have m: "min_separation ex_detector_sep = Some (19231 / 96000)"
    by (simp add: ex_detector_sep_def)
  have c: "0 < hop_size ex_detector_sep" "0 < classifier_sample_rate ex_detector_sep"
    "0 \<le> input_sample_rate ex_detector_sep"
    by (simp_all add: ex_detector_sep_def)
  have s: "peaks_separated
      (num_div ex_env (19231 / 96000)
         (get_duration ex_env (hop_size ex_detector_sep)
            (classifier_sample_rate ex_detector_sep))) ?ps"
    by code_simp
  have w: "list_all (\<lambda>p. is_int64 (p * hop_size ex_detector_sep)) ?ps"
    by code_simp
  have a: "accepted_clips ex_env ex_detector_sep 10000 (9 / 10) ?ps =
     [(482, 1920, 9 / 10), (1443, 1920, 9 / 10)]"
    by code_simp
  note t1 = clips_separated_up_to_rounding[of ex_detector ex_env "[0, 0, 1, 0, 0]" "1 / 2" 0]
  note t2 = clips_separated_up_to_rounding[of ex_detector_sep ex_env
      "[0, 0, 1, 0, 1, 0]" "9 / 10" 10000]
  from t1 n have r1: "detector_find_peaks ex_env ex_detector [0, 0, 1, 0, 0] (1 / 2) =
      find_peaks ex_env [0, 0, 1, 0, 0] (1 / 2) None"
    by blast
  have w': "\<forall>p \<in> set ?ps. is_int64 (p * hop_size ex_detector_sep)"
    using w by (simp only: list_all_iff)
  from t2 m ex_env_exact c s w'
  have "sorted_wrt (\<lambda>a b. 19231 / 96000 * input_sample_rate ex_detector_sep - 1
                      \<le> of_int (fst b - fst a))
     (accepted_clips ex_env ex_detector_sep 10000 (9 / 10) ?ps)"
    by blast
  then have r2: "sorted_wrt (\<lambda>a b. 19231 / 96000 * input_sample_rate ex_detector_sep - 1
                      \<le> of_int (fst b - fst a))
     [(482 :: int, 1920 :: int, 9 / 10 :: rat), (1443, 1920, 9 / 10)]"
    unfolding a .
  from n r1 m ex_env_exact c s w a r2 show ?thesis by blast
qed

text \<open>The claim as it was stated fails: the minimum separation is just under two hops,
  the peaks 2 and 4 are two hops apart, and their clips start 961 samples apart, less
  than the minimum separation in input samples, \<open>961.55\<close>, and less than that rounded,
  \<open>962\<close>. The two starts are \<open>961.6\<close> and \<open>1923.2\<close> before rounding.\<close>

theorem clip_separation_counterexample:
  "min_separation ex_detector_sep = Some (19231 / 96000) \<and>
   num_div ex_env (19231 / 96000)
     (get_duration ex_env (hop_size ex_detector_sep)
        (classifier_sample_rate ex_detector_sep)) = 19231 / 9616 \<and>
   detector_find_peaks ex_env ex_detector_sep [0, 0, 1, 0, 1, 0] (9 / 10) = [2, 4] \<and>
   peaks_separated (19231 / 9616) [2, 4] \<and>
   clips (listener (threshold_loop ex_env [0, 0, 1, 0, 1, 0] 10000 ex_detector_sep [9 / 10])) =
     [(482, 1920, 9 / 10), (1443, 1920, 9 / 10)] \<and>
   (of_int (1443 - 482) :: rat) < 19231 / 96000 * input_sample_rate ex_detector_sep \<and>
   1443 - 482 < seconds_to_frames ex_env (19231 / 96000) (input_sample_rate ex_detector_sep)"
  by code_simp

end
